theory Spec2Isabelle
  imports Main
begin

section \<open>JavaScript values and exceptions\<close>

text \<open>
  The values the transport and the storage read from server responses. Numbers are the
  integers of the API (error codes, quota counters); \<open>JUndefined\<close> is the value of a
  property that is absent.
\<close>

datatype jsval =
    JUndefined
  | JNull
  | JBool bool
  | JNum int
  | JStr string
  | JArr "jsval list"
  | JObj "(string \<times> jsval) list"

text \<open>
  An exception or a rejection: a \<open>TypeError\<close> or \<open>SyntaxError\<close> of the runtime, or
  \<open>Error(message)\<close>.
\<close>

datatype js_error = TypeError | SyntaxError | Error string

text \<open>
  What a piece of code that may throw did: it ran to its end, or it threw; the state it
  had changed up to the throw stays changed.
\<close>

datatype 'a outcome = Done 'a | Threw js_error 'a

text \<open>\<open>Array.prototype.forEach\<close> with a callback that may throw: the first throw ends it.\<close>

fun forEach :: "('a \<Rightarrow> 's \<Rightarrow> 's outcome) \<Rightarrow> 'a list \<Rightarrow> 's \<Rightarrow> 's outcome" where
  "forEach f [] s = Done s"
| "forEach f (x # xs) s =
     (case f x s of Done s' \<Rightarrow> forEach f xs s' | Threw e s' \<Rightarrow> Threw e s')"

text \<open>Truthiness, as \<open>if (v)\<close>, \<open>!v\<close>, \<open>a || b\<close> and \<open>a && b\<close> read it.\<close>

fun truthy :: "jsval \<Rightarrow> bool" where
  "truthy JUndefined = False"
| "truthy JNull = False"
| "truthy (JBool b) = b"
| "truthy (JNum n) = (n \<noteq> 0)"
| "truthy (JStr s) = (s \<noteq> [])"
| "truthy (JArr xs) = True"
| "truthy (JObj kvs) = True"

text \<open>
  Reading a property of a value that is neither \<open>undefined\<close> nor \<open>null\<close>: the own
  properties of an object, and \<open>length\<close> and index \<open>0\<close> of an array or a string (the
  only ones the code reads of a value that may be one). Every other read is \<open>undefined\<close>.
\<close>

fun get_prop :: "jsval \<Rightarrow> string \<Rightarrow> jsval" where
  "get_prop (JObj kvs) k = (case map_of kvs k of Some v \<Rightarrow> v | None \<Rightarrow> JUndefined)"
| "get_prop (JArr xs) k =
     (if k = ''length'' then JNum (int (length xs))
      else if k = ''0'' then (case xs of [] \<Rightarrow> JUndefined | x # _ \<Rightarrow> x)
      else JUndefined)"
| "get_prop (JStr s) k =
     (if k = ''length'' then JNum (int (length s))
      else if k = ''0'' then (case s of [] \<Rightarrow> JUndefined | c # _ \<Rightarrow> JStr [c])
      else JUndefined)"
| "get_prop v k = JUndefined"

text \<open>\<open>a || b\<close>.\<close>

definition js_or :: "jsval \<Rightarrow> jsval \<Rightarrow> jsval" where
  "js_or a b = (if truthy a then a else b)"

section \<open>The file graph (Storage, the sync engine)\<close>

type_synonym handle = string

text \<open>
  A node record of the server: \<open>f.h\<close>, \<open>f.p\<close> (absent for a root), \<open>f.t\<close>, \<open>f.ts\<close>
  and the encrypted attributes \<open>f.a\<close>.
\<close>

datatype node_record = NodeRecord (f_h: handle) (f_p: "handle option") (f_t: int) (f_ts: int) (f_a: string)

text \<open>
  A \<open>MutableFile\<close> object. Objects are created by \<open>_importFile\<close> only, one per handle,
  and are never taken out of \<open>this.files\<close>, so a reference to a file object is its
  handle: \<open>parent\<close> holds the handle of the parent object and \<open>children\<close> the handles of
  the objects in the \<open>children\<close> array (\<open>None\<close>: the property is \<open>undefined\<close>).
\<close>

record mfile =
  nodeId :: handle
  ftype :: int
  timestamp :: int
  attributes :: string
  fname :: "string option"
  parent :: "handle option"
  children :: "handle list option"

text \<open>The events of the storage and of the file objects, in the order emitted.\<close>

datatype event =
    Update handle
  | Move handle handle
  | Add handle
  | Delete handle
  | FileUpdate handle
  | FileMove handle handle
  | FileDelete handle

text \<open>
  The part of a Storage the sync engine works on: \<open>this.files\<close>, \<open>this.mounts\<close>
  (\<open>undefined\<close> until \<open>reload\<close> sets it), the special roots, and the log of events.
\<close>

record graph =
  files :: "handle \<rightharpoonup> mfile"
  mounts :: "handle list option"
  root :: "handle option"
  trash :: "handle option"
  inbox :: "handle option"
  events :: "event list"

definition NODE_TYPE_DRIVE :: int where "NODE_TYPE_DRIVE = 2"
definition NODE_TYPE_INBOX :: int where "NODE_TYPE_INBOX = 3"
definition NODE_TYPE_RUBBISH_BIN :: int where "NODE_TYPE_RUBBISH_BIN = 4"

text \<open>
  Modelled from the spec: the constructor \<open>new MutableFile(f, this)\<close> (mutable-file.mjs
  is not among the sources). A FileNode has the record's handle, type, timestamp and
  attributes; it starts with no parent link and no child collection (\<open>_importFile\<close> and
  the move handler create the collection when it is absent).
\<close>

definition new_MutableFile :: "node_record \<Rightarrow> mfile" where
  "new_MutableFile f =
     \<lparr>nodeId = f_h f, ftype = f_t f, timestamp = f_ts f, attributes = f_a f,
      fname = None, parent = None, children = None\<rparr>"

text \<open>
  Modelled from the spec: \<open>file.decryptAttributes(at)\<close> (file.mjs is not among the
  sources) replaces the node's attributes; the decryption itself is not modelled.
\<close>

definition decryptAttributes :: "string \<Rightarrow> mfile \<Rightarrow> mfile" where
  "decryptAttributes a file = file\<lparr>attributes := a\<rparr>"

text \<open>Changing one file object in place.\<close>

definition modify :: "handle \<Rightarrow> (mfile \<Rightarrow> mfile) \<Rightarrow> graph \<Rightarrow> graph" where
  "modify k g s = (case files s k of None \<Rightarrow> s | Some file \<Rightarrow> s\<lparr>files := (files s)(k \<mapsto> g file)\<rparr>)"

definition emit :: "event \<Rightarrow> graph \<Rightarrow> graph" where
  "emit e s = s\<lparr>events := events s @ [e]\<rparr>"

text \<open>\<open>this.files[k]\<close> with a key that may be \<open>undefined\<close>: the key is then \<open>"undefined"\<close>.\<close>

definition key_of :: "handle option \<Rightarrow> handle" where
  "key_of k = (case k of None \<Rightarrow> ''undefined'' | Some x \<Rightarrow> x)"

text \<open>
  \<open>arr.splice(arr.indexOf(x), 1)\<close>: the first occurrence of \<open>x\<close> goes; when \<open>x\<close> is not
  in the array \<open>indexOf\<close> is \<open>-1\<close> and \<open>splice(-1, 1)\<close> removes the last element.
\<close>

definition splice_indexOf :: "'a \<Rightarrow> 'a list \<Rightarrow> 'a list" where
  "splice_indexOf x xs = (if x \<in> set xs then remove1 x xs else butlast xs)"

text \<open>\<open>if (!parent.children) parent.children = []; parent.children.push(file)\<close>.\<close>

definition push_child :: "handle \<Rightarrow> mfile \<Rightarrow> mfile" where
  "push_child c pf =
     pf\<lparr>children := Some ((case children pf of None \<Rightarrow> [] | Some cs \<Rightarrow> cs) @ [c])\<rparr>"

text \<open>The name a special root gets.\<close>

definition special_root :: "node_record \<Rightarrow> graph \<Rightarrow> graph" where
  "special_root f s =
     (let s1 = (if f_t f = NODE_TYPE_DRIVE
                then modify (f_h f) (\<lambda>x. x\<lparr>fname := Some ''Cloud Drive''\<rparr>) (s\<lparr>root := Some (f_h f)\<rparr>)
                else s);
          s2 = (if f_t f = NODE_TYPE_RUBBISH_BIN
                then modify (f_h f) (\<lambda>x. x\<lparr>fname := Some ''Rubbish Bin''\<rparr>) (s1\<lparr>trash := Some (f_h f)\<rparr>)
                else s1)
      in if f_t f = NODE_TYPE_INBOX
         then modify (f_h f) (\<lambda>x. x\<lparr>fname := Some ''Inbox''\<rparr>) (s2\<lparr>inbox := Some (f_h f)\<rparr>)
         else s2)"

text \<open>The link of a new file to its parent, when the parent is in the graph.\<close>

definition link_parent :: "node_record \<Rightarrow> graph \<Rightarrow> graph" where
  "link_parent f s =
     (case f_p f of
        None \<Rightarrow> s
      | Some p \<Rightarrow>
          if p = [] then s
          else (case files s p of
                  None \<Rightarrow> s
                | Some pf \<Rightarrow>
                    modify (f_h f) (\<lambda>x. x\<lparr>parent := Some p\<rparr>) (modify p (push_child (f_h f)) s)))"

text \<open>
  \<open>Storage._importFile\<close>: a record whose handle is in the graph changes nothing. The
  result is the graph; the value returned, \<open>this.files[f.h]\<close>, is the object of handle
  \<open>f.h\<close>. \<open>this.mounts.push\<close> throws when \<open>mounts\<close> is \<open>undefined\<close>.
\<close>

definition importFile :: "node_record \<Rightarrow> graph \<Rightarrow> graph outcome" where
  "importFile f s =
     (if files s (f_h f) \<noteq> None then Done s
      else
        let s1 = special_root f (s\<lparr>files := (files s)(f_h f \<mapsto> new_MutableFile f)\<rparr>)
        in if f_t f > 1
           then (case mounts s1 of
                   None \<Rightarrow> Threw TypeError s1
                 | Some ms \<Rightarrow> Done (link_parent f (s1\<lparr>mounts := Some (ms @ [f_h f])\<rparr>)))
           else Done (link_parent f s1))"

text \<open>
  The import loop of \<open>reload\<close>, \<open>response.f.forEach(file => this._importFile(file) ...)\<close>.
  The share fields the loop sets on the imported file (\<open>shareId\<close>, \<open>shared\<close>,
  \<open>shareURL\<close>) are not part of this model.
\<close>

definition import_all :: "node_record list \<Rightarrow> graph \<Rightarrow> graph outcome" where
  "import_all fs s = forEach importFile fs s"

text \<open>The graph of a Storage that has called \<open>reload\<close> and imported nothing yet.\<close>

definition empty_graph :: graph where
  "empty_graph = \<lparr>files = Map.empty, mounts = Some [], root = None, trash = None,
                   inbox = None, events = []\<rparr>"

text \<open>Whether \<open>c\<close> is linked under \<open>p\<close>, and how often \<open>p\<close> lists it.\<close>

definition child_count :: "graph \<Rightarrow> handle \<Rightarrow> handle \<Rightarrow> nat" where
  "child_count s p c =
     (case files s p of
        None \<Rightarrow> 0
      | Some pf \<Rightarrow> (case children pf of None \<Rightarrow> 0 | Some cs \<Rightarrow> count_list cs c))"

definition parent_of :: "graph \<Rightarrow> handle \<Rightarrow> handle option" where
  "parent_of s c = (case files s c of None \<Rightarrow> None | Some file \<Rightarrow> parent file)"

text \<open>The events a graph has got since an earlier state.\<close>

definition emitted :: "graph \<Rightarrow> graph \<Rightarrow> event list" where
  "emitted g g' = drop (length (events g)) (events g')"

text \<open>Reading an outcome: whether it threw, and the state it left.\<close>

definition threw :: "'a outcome \<Rightarrow> bool" where
  "threw r = (case r of Done s \<Rightarrow> False | Threw e s \<Rightarrow> True)"

definition the_state :: "'a outcome \<Rightarrow> 'a" where
  "the_state r = (case r of Done s \<Rightarrow> s | Threw e s \<Rightarrow> s)"

subsection \<open>The change batches of the long poll (the \<open>sc\<close> listener of \<open>reload\<close>)\<close>

text \<open>
  An action \<open>o\<close> of a batch: \<open>{a: 'u', n, ts, at}\<close>, \<open>{a: 'd', n}\<close>,
  \<open>{a: 't', t: {f: [...]}}\<close>, or an action with another \<open>a\<close>, which the listener skips.
\<close>

datatype action =
    ActU handle int string
  | ActD handle
  | ActT "node_record list"
  | ActOther string

text \<open>
  The local object \<open>deleted\<close>: its keys in the order they were created.
  \<open>deleted[n] = true\<close> adds a key that is not there; \<open>delete deleted[h]\<close> removes it.
\<close>

definition mark_deleted :: "handle \<Rightarrow> handle list \<Rightarrow> handle list" where
  "mark_deleted n d = (if n \<in> set d then d else d @ [n])"

definition unmark_deleted :: "handle \<Rightarrow> handle list \<Rightarrow> handle list" where
  "unmark_deleted n d = removeAll n d"

text \<open>
  \<open>Object.keys\<close>: the keys that are array indices (a canonical decimal numeral below
  \<open>2^32 - 1\<close>) come first, in ascending order, then the other keys in creation order.
\<close>

definition is_digit :: "char \<Rightarrow> bool" where
  "is_digit c = (48 \<le> (of_char c :: nat) \<and> (of_char c :: nat) \<le> 57)"

definition digit_val :: "char \<Rightarrow> nat" where
  "digit_val c = of_char c - 48"

definition dec_value :: "string \<Rightarrow> nat" where
  "dec_value s = foldl (\<lambda>a c. 10 * a + digit_val c) 0 s"

definition is_array_index :: "string \<Rightarrow> bool" where
  "is_array_index s =
     (s \<noteq> [] \<and> length s \<le> 10 \<and> list_all is_digit s \<and> (s = ''0'' \<or> hd s \<noteq> CHR ''0'')
      \<and> dec_value s < 4294967295)"

definition Object_keys :: "handle list \<Rightarrow> handle list" where
  "Object_keys d =
     sort_key dec_value (filter is_array_index d) @ filter (\<lambda>k. \<not> is_array_index k) d"

text \<open>\<open>x.children\<close> of the file object of handle \<open>p\<close>.\<close>

definition children_at :: "graph \<Rightarrow> handle \<Rightarrow> handle list option" where
  "children_at s p = (case files s p of None \<Rightarrow> None | Some pf \<Rightarrow> children pf)"

text \<open>The \<open>'u'\<close> branch: an unknown handle is skipped.\<close>

definition sc_update :: "handle \<Rightarrow> int \<Rightarrow> string \<Rightarrow> graph \<Rightarrow> graph" where
  "sc_update n ts a s =
     (case files s n of
        None \<Rightarrow> s
      | Some file \<Rightarrow>
          emit (Update n) (emit (FileUpdate n)
            (modify n (\<lambda>x. decryptAttributes a (x\<lparr>timestamp := ts\<rparr>)) s)))"

text \<open>
  One node \<open>f\<close> of a \<open>'t'\<close> action, on the graph and the keys of \<open>deleted\<close>. A known file
  is unmarked and moved; reading \<open>oldparent.nodeId\<close> of a file without parent, the
  \<open>children\<close> of an old parent that has none, or the \<open>children\<close> of a new parent that is
  not in the graph throws a TypeError. An unknown file is imported and announced.
\<close>

definition sc_move :: "node_record \<Rightarrow> graph \<times> handle list \<Rightarrow> (graph \<times> handle list) outcome" where
  "sc_move f sd =
     (case sd of (s, d) \<Rightarrow>
       (case files s (f_h f) of
          None \<Rightarrow>
            (case importFile f s of
               Done s' \<Rightarrow> Done (emit (Add (f_h f)) s', d)
             | Threw e s' \<Rightarrow> Threw e (s', d))
        | Some file \<Rightarrow>
            let d' = unmark_deleted (f_h f) d in
            (case parent file of
               None \<Rightarrow> Threw TypeError (s, d')
             | Some oldparent \<Rightarrow>
                 if Some oldparent = f_p f then Done (s, d')
                 else
                   (case children_at s oldparent of
                      None \<Rightarrow> Threw TypeError (s, d')
                    | Some cs \<Rightarrow>
                        let s1 = modify oldparent (\<lambda>x. x\<lparr>children := Some (splice_indexOf (f_h f) cs)\<rparr>) s;
                            np = key_of (f_p f);
                            s2 = modify (f_h f)
                                   (\<lambda>x. x\<lparr>parent := (if files s1 np = None then None else Some np)\<rparr>) s1
                        in (case files s2 np of
                              None \<Rightarrow> Threw TypeError (s2, d')
                            | Some pf \<Rightarrow>
                                Done (emit (Move (f_h f) oldparent) (emit (FileMove (f_h f) oldparent)
                                        (modify np (push_child (f_h f)) s2)), d'))))))"

text \<open>One action of the batch.\<close>

fun sc_action :: "action \<Rightarrow> graph \<times> handle list \<Rightarrow> (graph \<times> handle list) outcome" where
  "sc_action (ActU n ts a) sd = Done (sc_update n ts a (fst sd), snd sd)"
| "sc_action (ActD n) sd = Done (fst sd, mark_deleted n (snd sd))"
| "sc_action (ActT fs) sd = forEach sc_move fs sd"
| "sc_action (ActOther a) sd = Done sd"

text \<open>
  The end of the listener, for one key \<open>n\<close> of \<open>deleted\<close>: \<open>file.parent\<close> of an unknown
  handle, and \<open>parent.children\<close> of a file without parent or of a parent without
  \<open>children\<close>, throw a TypeError.
\<close>

definition sc_delete :: "handle \<Rightarrow> graph \<Rightarrow> graph outcome" where
  "sc_delete n s =
     (case files s n of
        None \<Rightarrow> Threw TypeError s
      | Some file \<Rightarrow>
          (case parent file of
             None \<Rightarrow> Threw TypeError s
           | Some p \<Rightarrow>
               (case children_at s p of
                  None \<Rightarrow> Threw TypeError s
                | Some cs \<Rightarrow>
                    Done (emit (FileDelete n) (emit (Delete n)
                      (modify p (\<lambda>x. x\<lparr>children := Some (splice_indexOf n cs)\<rparr>) s))))))"

text \<open>The listener \<open>arr => { ... }\<close> that \<open>reload\<close> registers for \<open>sc\<close>.\<close>

definition sc_handler :: "action list \<Rightarrow> graph \<Rightarrow> graph outcome" where
  "sc_handler arr s =
     (case forEach sc_action arr (s, []) of
        Threw e sd \<Rightarrow> Threw e (fst sd)
      | Done sd \<Rightarrow> forEach sc_delete (Object_keys (snd sd)) (fst sd))"

section \<open>The transport (API)\<close>

definition MAX_RETRIES :: nat where "MAX_RETRIES = 4"

text \<open>The table \<open>ERRORS\<close>; \<open>ERRORS[k]\<close> of a key that is not in it is \<open>undefined\<close>.\<close>

definition ERRORS :: "int \<Rightarrow> string option" where
  "ERRORS k =
    (if k = 1 then Some ''EINTERNAL (-1): An internal error has occurred. Please submit a bug report, detailing the exact circumstances in which this error occurred.''
     else if k = 2 then Some ''EARGS (-2): You have passed invalid arguments to this command.''
     else if k = 3 then Some ''EAGAIN (-3): A temporary congestion or server malfunction prevented your request from being processed. No data was altered. Retried 4 times.''
     else if k = 4 then Some ''ERATELIMIT (-4): You have exceeded your command weight per time quota. Please wait a few seconds, then try again (this should never happen in sane real-life applications).''
     else if k = 5 then Some ''EFAILED (-5): The upload failed. Please restart it from scratch.''
     else if k = 6 then Some ''ETOOMANY (-6): Too many concurrent IP addresses are accessing this upload target URL.''
     else if k = 7 then Some ''ERANGE (-7): The upload file packet is out of range or not starting and ending on a chunk boundary.''
     else if k = 8 then Some ''EEXPIRED (-8): The upload target URL you are trying to access has expired. Please request a fresh one.''
     else if k = 9 then Some ''ENOENT (-9): Object (typically, node or user) not found. Wrong password?''
     else if k = 10 then Some ''ECIRCULAR (-10): Circular linkage attempted''
     else if k = 11 then Some ''EACCESS (-11): Access violation (e.g., trying to write to a read-only share)''
     else if k = 12 then Some ''EEXIST (-12): Trying to create an object that already exists''
     else if k = 13 then Some ''EINCOMPLETE (-13): Trying to access an incomplete resource''
     else if k = 14 then Some ''EKEY (-14): A decryption operation failed (never returned by the API)''
     else if k = 15 then Some ''ESID (-15): Invalid or expired user session, please relogin''
     else if k = 16 then Some ''EBLOCKED (-16): User blocked''
     else if k = 17 then Some ''EOVERQUOTA (-17): Request over quota''
     else if k = 18 then Some ''ETEMPUNAVAIL (-18): Resource temporarily not available, please try again later''
     else None)"

text \<open>\<open>Error(ERRORS[-resp])\<close>: the message of \<open>Error(undefined)\<close> is empty.\<close>

definition api_error :: "int \<Rightarrow> js_error" where
  "api_error resp = Error (case ERRORS (- resp) of None \<Rightarrow> [] | Some m \<Rightarrow> m)"

definition DEFAULT_GATEWAY :: string where
  "DEFAULT_GATEWAY = ''https://g.api.mega.co.nz/''"

subsection \<open>The request counter\<close>

text \<open>
  A number of the counter: an integer that a double holds exactly (at most \<open>2^53\<close> in
  absolute value), or \<open>NaN\<close>.
\<close>

datatype jsnum = Finite int | NaN

text \<open>\<open>counterId\<close> is the string the constructor stores until the first \<open>++\<close> makes it a number.\<close>

datatype counter = CStr string | CNumber jsnum

text \<open>
  The number a string converts to, for the strings of decimal digits (the form of
  \<open>Math.random().toString().substr(2, 10)\<close> when the random number prints in positional
  notation) and the empty string. The other forms of a numeric literal (a sign, an
  exponent, blanks, a radix prefix) are not modelled: every other string is taken to
  \<open>NaN\<close>.
\<close>

definition StringToNumber :: "string \<Rightarrow> jsnum" where
  "StringToNumber s = (if list_all is_digit s then Finite (int (dec_value s)) else NaN)"

definition ToNumeric :: "counter \<Rightarrow> jsnum" where
  "ToNumeric c = (case c of CStr s \<Rightarrow> StringToNumber s | CNumber n \<Rightarrow> n)"

text \<open>\<open>x + 1\<close> on doubles: exact below \<open>2^53\<close>; \<open>2^53 + 1\<close> rounds back to \<open>2^53\<close>.\<close>

definition js_succ :: "jsnum \<Rightarrow> jsnum" where
  "js_succ n = (case n of NaN \<Rightarrow> NaN | Finite v \<Rightarrow> Finite (if v < 9007199254740992 then v + 1 else v))"

text \<open>\<open>Number.prototype.toString\<close> of an integer below \<open>10^21\<close>, and of \<open>NaN\<close>.\<close>

fun nat_to_string :: "nat \<Rightarrow> string" where
  "nat_to_string n =
     (if n < 10 then [char_of (48 + n)] else nat_to_string (n div 10) @ [char_of (48 + n mod 10)])"

declare nat_to_string.simps [simp del]

definition Number_toString :: "jsnum \<Rightarrow> string" where
  "Number_toString n =
     (case n of
        NaN \<Rightarrow> ''NaN''
      | Finite v \<Rightarrow> if v < 0 then CHR ''-'' # nat_to_string (nat (- v)) else nat_to_string (nat v))"

text \<open>\<open>this.counterId++\<close>: the old value as a number, and the new value of the field.\<close>

definition post_increment :: "counter \<Rightarrow> jsnum \<times> counter" where
  "post_increment c = (ToNumeric c, CNumber (js_succ (ToNumeric c)))"

subsection \<open>The API object and what it does to the outside\<close>

text \<open>
  What the transport did, in order: the \<open>fetch\<close> of a unary request (the query string
  and the payload posted; the order of the parameters in the URL is not modelled), the
  \<open>fetch\<close> of a long poll (its AbortController, \<open>sn\<close> and \<open>sid\<close>), a timer set with
  its delay in milliseconds, and a call of a request's callback \<open>cb(err, resp)\<close>. The
  callback is not run here: what the callback of \<open>getAccountInfo\<close> does is modelled
  on its own below.
\<close>

datatype effect =
    Fetch "(string \<times> string) list" "(string \<times> jsval) list"
  | PollFetch nat jsval "string option"
  | SetTimeout nat
  | Callback "js_error option" jsval

text \<open>
  The fields of an API object. \<open>sn\<close> is the AbortController of the field \<open>this.sn\<close>;
  controllers are numbered as they are created. \<open>polls\<close> are the controllers of the
  long-poll fetches in flight; \<open>sc_listeners\<close> counts the listeners registered for
  \<open>sc\<close>.
\<close>

record api =
  keepalive :: bool
  counterId :: counter
  gateway :: string
  sid :: "string option"
  closed :: bool
  sn :: "nat option"
  controllers :: nat
  polls :: "nat list"
  sc_listeners :: nat
  effects :: "effect list"

text \<open>
  The constructor; \<open>rnd\<close> is the string \<open>Math.random().toString()\<close>, and \<open>gw\<close> is
  \<open>opt.gateway\<close>.
\<close>

definition new_API :: "bool \<Rightarrow> string option \<Rightarrow> string \<Rightarrow> api" where
  "new_API ka gw rnd =
     \<lparr>keepalive = ka, counterId = CStr (take 10 (drop 2 rnd)),
      gateway = (case gw of None \<Rightarrow> DEFAULT_GATEWAY | Some g \<Rightarrow> if g = [] then DEFAULT_GATEWAY else g),
      sid = None, closed = False, sn = None, controllers = 0, polls = [],
      sc_listeners = 0, effects = []\<rparr>"

definition perform :: "effect \<Rightarrow> api \<Rightarrow> api" where
  "perform e a = a\<lparr>effects := effects a @ [e]\<rparr>"

text \<open>
  The argument \<open>json\<close> of \<open>request\<close>: its properties other than \<open>_querystring\<close>, and
  \<open>_querystring\<close> when it is an object.
\<close>

datatype request = Request (payload: "(string \<times> jsval) list") (querystring: "(string \<times> string) list option")

definition isLogout :: "request \<Rightarrow> bool" where
  "isLogout rq = (map_of (payload rq) ''a'' = Some (JStr ''sml''))"

text \<open>\<open>Object.assign(qs, src)\<close>: a key of \<open>src\<close> replaces the value of the same key.\<close>

fun set_key :: "string \<Rightarrow> 'v \<Rightarrow> (string \<times> 'v) list \<Rightarrow> (string \<times> 'v) list" where
  "set_key k v [] = [(k, v)]"
| "set_key k v (kv # kvs) = (if fst kv = k then (k, v) # kvs else kv # set_key k v kvs)"

definition Object_assign :: "(string \<times> 'v) list \<Rightarrow> (string \<times> 'v) list \<Rightarrow> (string \<times> 'v) list" where
  "Object_assign target src = foldl (\<lambda>q kv. set_key (fst kv) (snd kv) q) target src"

text \<open>The query string \<open>qs\<close> of a request that got the number \<open>n\<close> of the counter.\<close>

definition request_qs :: "api \<Rightarrow> request \<Rightarrow> jsnum \<Rightarrow> (string \<times> string) list" where
  "request_qs a rq n =
     (let qs0 = [(''id'', Number_toString n)];
          qs1 = (case sid a of None \<Rightarrow> qs0 | Some x \<Rightarrow> if x = [] then qs0 else qs0 @ [(''sid'', x)])
      in case querystring rq of None \<Rightarrow> qs1 | Some q \<Rightarrow> Object_assign qs1 q)"

text \<open>
  \<open>API.request\<close> up to the \<open>fetch\<close>: a closed API throws, but for the logout; the
  counter advances and the request is posted.
\<close>

definition request_call :: "request \<Rightarrow> api \<Rightarrow> api outcome" where
  "request_call rq a =
     (if closed a \<and> \<not> isLogout rq then Threw (Error ''API is closed'') a
      else
        let nc = post_increment (counterId a)
        in Done (perform (Fetch (request_qs a rq (fst nc)) (payload rq)) (a\<lparr>counterId := snd nc\<rparr>)))"


text \<open>
  \<open>API.pull\<close> up to the \<open>fetch\<close>: a new AbortController takes the place of the one in
  \<open>this.sn\<close>, and a long-poll request is posted. Nothing is read of the field before.
\<close>

definition pull :: "jsval \<Rightarrow> api \<Rightarrow> api" where
  "pull snv a =
     (let c = controllers a
      in perform (PollFetch c snv (sid a))
           (a\<lparr>sn := Some c, controllers := c + 1, polls := polls a @ [c]\<rparr>))"

text \<open>
  What the server does with a \<open>fetch\<close>: the promise rejects, or it resolves with a
  response (\<open>statusText\<close>, \<open>ok\<close>, and the value of \<open>response.json()\<close>, \<open>None\<close> when the
  body is not JSON).
\<close>

datatype reply = Rejects js_error | Responds string bool "jsval option"

definition handleApiResponse :: "string \<Rightarrow> bool \<Rightarrow> jsval option \<Rightarrow> js_error + jsval" where
  "handleApiResponse statusText ok body =
     (if statusText = ''Server Too Busy'' then Inr (JNum (- 3))
      else if \<not> ok then Inl (Error (''Server returned error: '' @ statusText))
      else (case body of None \<Rightarrow> Inl SyntaxError | Some v \<Rightarrow> Inr v))"

text \<open>\<open>if (resp.length) resp = resp[0]\<close>.\<close>

definition first_of :: "jsval \<Rightarrow> jsval" where
  "first_of resp = (if truthy (get_prop resp ''length'') then get_prop resp ''0'' else resp)"

text \<open>\<open>(typeof resp === 'number') && resp < 0\<close>.\<close>

definition negative_number :: "jsval \<Rightarrow> bool" where
  "negative_number resp = (case resp of JNum v \<Rightarrow> v < 0 | _ \<Rightarrow> False)"

definition number_of :: "jsval \<Rightarrow> int" where
  "number_of resp = (case resp of JNum v \<Rightarrow> v | _ \<Rightarrow> 0)"

text \<open>
  How the handling of a response ends: the request is finished, or a timer is set that
  calls \<open>this.request(json, cb, retryno + 1)\<close>.
\<close>

datatype 'a settled = Finished 'a | Retrying 'a

text \<open>The handler \<open>resp => { ... }\<close> of \<open>API.request\<close>.\<close>

definition request_then :: "request \<Rightarrow> nat \<Rightarrow> jsval \<Rightarrow> api \<Rightarrow> api settled" where
  "request_then rq retryno resp0 a =
     (if closed a \<and> \<not> isLogout rq then Finished a
      else if \<not> truthy resp0
      then Finished (perform (Callback (Some (Error ''Empty response'')) JUndefined) a)
      else
        let resp = first_of resp0
        in if negative_number resp
           then (if resp = JNum (- 3) \<and> retryno < MAX_RETRIES
                 then Retrying (perform (SetTimeout (2 ^ (retryno + 1) * 1000)) a)
                 else Finished (perform (Callback (Some (api_error (number_of resp))) resp) a))
           else Finished (perform (Callback None resp)
                  (if keepalive a \<and> truthy resp \<and> truthy (get_prop resp ''sn'')
                   then pull (get_prop resp ''sn'') a else a)))"

text \<open>
  The promise chain of \<open>API.request\<close> on the server's reply: a rejection, of the fetch
  or of \<open>handleApiResponse\<close>, goes to \<open>cb(err)\<close>.
\<close>

definition request_settle :: "request \<Rightarrow> nat \<Rightarrow> reply \<Rightarrow> api \<Rightarrow> api settled" where
  "request_settle rq retryno r a =
     (case r of
        Rejects e \<Rightarrow> Finished (perform (Callback (Some e) JUndefined) a)
      | Responds statusText ok body \<Rightarrow>
          (case handleApiResponse statusText ok body of
             Inl e \<Rightarrow> Finished (perform (Callback (Some e) JUndefined) a)
           | Inr v \<Rightarrow> request_then rq retryno v a))"

text \<open>
  A request from its call to its end, against the replies the server gives to its
  fetches, in order: each retry is a new call of \<open>request\<close> (on \<open>json\<close> without its
  \<open>_querystring\<close>, which the first call deleted) when its timer fires. With no reply
  left the fetch stays pending.
\<close>

fun request_run :: "reply list \<Rightarrow> request \<Rightarrow> nat \<Rightarrow> api \<Rightarrow> api outcome" where
  "request_run [] rq retryno a = request_call rq a"
| "request_run (r # rs) rq retryno a =
     (case request_call rq a of
        Threw e a' \<Rightarrow> Threw e a'
      | Done a' \<Rightarrow>
          (case request_settle rq retryno r a' of
             Finished a'' \<Rightarrow> Done a''
           | Retrying a'' \<Rightarrow> request_run rs (Request (payload rq) None) (retryno + 1) a''))"

text \<open>Readings of the log.\<close>

definition new_effects :: "api \<Rightarrow> api \<Rightarrow> effect list" where
  "new_effects a a' = drop (length (effects a)) (effects a')"

fun timeouts :: "effect list \<Rightarrow> nat list" where
  "timeouts [] = []"
| "timeouts (SetTimeout d # es) = d # timeouts es"
| "timeouts (e # es) = timeouts es"

fun callbacks :: "effect list \<Rightarrow> (js_error option \<times> jsval) list" where
  "callbacks [] = []"
| "callbacks (Callback e v # es) = (e, v) # callbacks es"
| "callbacks (e # es) = callbacks es"

fun fetches :: "effect list \<Rightarrow> (string \<times> string) list list" where
  "fetches [] = []"
| "fetches (Fetch qs body # es) = qs # fetches es"
| "fetches (e # es) = fetches es"

fun poll_fetches :: "effect list \<Rightarrow> nat list" where
  "poll_fetches [] = []"
| "poll_fetches (PollFetch c snv s # es) = c # poll_fetches es"
| "poll_fetches (e # es) = poll_fetches es"

text \<open>A reply that \<open>request\<close> reads as the error code \<open>-3\<close>.\<close>

definition answers_EAGAIN :: "reply \<Rightarrow> bool" where
  "answers_EAGAIN r =
     (case r of
        Rejects e \<Rightarrow> False
      | Responds statusText ok body \<Rightarrow>
          (case handleApiResponse statusText ok body of
             Inl e \<Rightarrow> False
           | Inr v \<Rightarrow> truthy v \<and> first_of v = JNum (- 3)))"

text \<open>A reply that \<open>request\<close> reads as the response \<open>v\<close> of a request that succeeded.\<close>

definition answers_success :: "reply \<Rightarrow> jsval \<Rightarrow> bool" where
  "answers_success r v =
     (case r of
        Rejects e \<Rightarrow> False
      | Responds statusText ok body \<Rightarrow>
          (case handleApiResponse statusText ok body of
             Inl e \<Rightarrow> False
           | Inr w \<Rightarrow> truthy w \<and> first_of w = v \<and> \<not> negative_number v))"

text \<open>The value of the parameter \<open>k\<close> in a query string.\<close>

definition qs_param :: "string \<Rightarrow> (string \<times> string) list \<Rightarrow> string option" where
  "qs_param k qs = map_of qs k"


section \<open>The Storage object\<close>

datatype status = Closed | Connecting | Ready

text \<open>The options of a Storage; \<open>None\<close> is a property that is \<open>undefined\<close>.\<close>

record options =
  email :: "string option"
  password :: "string option"
  opt_keepalive :: "bool option"
  autoload :: "bool option"
  autologin :: "bool option"
  opt_gateway :: "string option"

text \<open>
  The fields of a Storage: the transport, the file graph, the options, the status, the
  master key (\<open>aes\<close> is the key the cipher object was made of), the session id, the
  account name and the user identifier. \<open>ready_once\<close> counts the reloads that wait for
  the event \<open>ready\<close>.
\<close>

record storage =
  api :: api
  fgraph :: graph
  options :: options
  status :: status
  key :: "nat list option"
  aes :: "nat list option"
  storage_sid :: "string option"
  account_name :: jsval
  user :: jsval
  ready_once :: nat

text \<open>How the constructor goes on: it calls \<open>login\<close>, or it calls the callback on the next tick.\<close>

datatype startup = CallsLogin | NextTickCallback

definition default_true :: "bool option \<Rightarrow> bool" where
  "default_true b = (case b of None \<Rightarrow> True | Some x \<Rightarrow> x)"

text \<open>
  The constructor: the Storage as it is before \<open>login\<close> runs, and whether \<open>login\<close> is
  called. \<open>rnd\<close> is the random string of the API constructor.
\<close>

definition new_Storage :: "options \<Rightarrow> string \<Rightarrow> storage \<times> startup" where
  "new_Storage opts rnd =
     (let opts' = opts\<lparr>opt_keepalive := Some (default_true (opt_keepalive opts)),
                       autoload := Some (default_true (autoload opts)),
                       autologin := Some (default_true (autologin opts))\<rparr>
      in (\<lparr>api = new_API (default_true (opt_keepalive opts)) (opt_gateway opts) rnd,
           fgraph = \<lparr>files = Map.empty, mounts = None, root = None, trash = None,
                     inbox = None, events = []\<rparr>,
           options = opts', status = Closed, key = None, aes = None, storage_sid = None,
           account_name = JUndefined, user = JUndefined, ready_once = 0\<rparr>,
          if default_true (autologin opts) then CallsLogin else NextTickCallback))"

text \<open>
  \<open>Storage.reload\<close> up to its return: while connecting and not forced, the reload
  waits for \<open>ready\<close>; otherwise \<open>mounts\<close> is emptied, the request \<open>{a: 'f', c: 1}\<close> is
  called (which throws on a closed API) and one more listener is registered for \<open>sc\<close>.
\<close>

definition reload :: "bool \<Rightarrow> storage \<Rightarrow> storage outcome" where
  "reload force s =
     (if status s = Connecting \<and> \<not> force then Done (s\<lparr>ready_once := ready_once s + 1\<rparr>)
      else
        let s1 = s\<lparr>fgraph := (fgraph s)\<lparr>mounts := Some []\<rparr>\<rparr>
        in (case request_call (Request [(''a'', JStr ''f''), (''c'', JNum 1)] None) (api s1) of
              Threw e a \<Rightarrow> Threw e (s1\<lparr>api := a\<rparr>)
            | Done a \<Rightarrow> Done (s1\<lparr>api := a\<lparr>sc_listeners := sc_listeners a + 1\<rparr>\<rparr>)))"

text \<open>Calls of \<open>reload\<close>, one after the other.\<close>

fun reloads :: "nat \<Rightarrow> bool \<Rightarrow> storage \<Rightarrow> storage outcome" where
  "reloads 0 force s = Done s"
| "reloads (Suc n) force s =
     (case reload force s of Threw e s' \<Rightarrow> Threw e s' | Done s' \<Rightarrow> reloads n force s')"

text \<open>
  \<open>emit('sc', arr)\<close> on an emitter with \<open>n\<close> listeners of \<open>reload\<close>: each runs on the
  graph the one before left; a listener that throws ends the emit.
\<close>

fun emit_sc :: "nat \<Rightarrow> action list \<Rightarrow> graph \<Rightarrow> graph outcome" where
  "emit_sc 0 arr g = Done g"
| "emit_sc (Suc n) arr g =
     (case sc_handler arr g of Threw e g' \<Rightarrow> Threw e g' | Done g' \<Rightarrow> emit_sc n arr g')"

text \<open>A change batch that arrives at a Storage.\<close>

definition receive_sc :: "action list \<Rightarrow> storage \<Rightarrow> storage outcome" where
  "receive_sc arr s =
     (case emit_sc (sc_listeners (api s)) arr (fgraph s) of
        Threw e g \<Rightarrow> Threw e (s\<lparr>fgraph := g\<rparr>)
      | Done g \<Rightarrow> Done (s\<lparr>fgraph := g\<rparr>))"

subsection \<open>The snapshot of a session\<close>

record snapshot =
  json_key :: string
  json_sid :: "string option"
  json_name :: jsval
  json_user :: jsval
  json_options :: options

text \<open>
  \<open>Storage.toJSON\<close> and \<open>Storage.fromJSON\<close>. The helpers \<open>e64\<close> and \<open>d64\<close>
  (crypto/index.mjs is not among the sources) are parameters: \<open>e64\<close> gets \<open>this.key\<close>,
  which is \<open>undefined\<close> before a login.
\<close>

definition toJSON :: "(nat list option \<Rightarrow> string) \<Rightarrow> storage \<Rightarrow> snapshot" where
  "toJSON e64 s =
     \<lparr>json_key = e64 (key s), json_sid = storage_sid s, json_name = account_name s,
      json_user = user s, json_options = options s\<rparr>"

definition fromJSON :: "(string \<Rightarrow> nat list) \<Rightarrow> string \<Rightarrow> snapshot \<Rightarrow> storage \<times> startup" where
  "fromJSON d64 rnd json =
     (let made = new_Storage ((json_options json)\<lparr>autoload := Some False, autologin := Some False\<rparr>) rnd;
          st = fst made
      in (st\<lparr>key := Some (d64 (json_key json)), aes := Some (d64 (json_key json)),
              api := (api st)\<lparr>sid := json_sid json\<rparr>, storage_sid := json_sid json,
              account_name := json_name json, user := json_user json\<rparr>,
          snd made))"

subsection \<open>Account information\<close>

record account =
  acc_type :: jsval
  spaceUsed :: jsval
  spaceTotal :: jsval
  downloadBandwidthTotal :: jsval
  downloadBandwidthUsed :: jsval
  sharedBandwidthUsed :: jsval
  sharedBandwidthLimit :: jsval

text \<open>The normalization of a response that is neither \<open>undefined\<close> nor \<open>null\<close>.\<close>

definition normalize :: "jsval \<Rightarrow> account" where
  "normalize response =
     \<lparr>acc_type = get_prop response ''utype'',
      spaceUsed = get_prop response ''cstrg'',
      spaceTotal = get_prop response ''mstrg'',
      downloadBandwidthTotal = js_or (get_prop response ''mxfer'') (JNum (1024 ^ 5 * 10)),
      downloadBandwidthUsed = js_or (get_prop response ''caxfer'') (JNum 0),
      sharedBandwidthUsed = js_or (get_prop response ''csxfer'') (JNum 0),
      sharedBandwidthLimit = get_prop response ''srvratio''\<rparr>"

text \<open>A call of the callback of \<open>getAccountInfo\<close>: \<open>cb(err)\<close> or \<open>cb(null, account)\<close>.\<close>

datatype cb_call = CbError js_error | CbAccount account

text \<open>
  The function \<open>(err, response) => { ... }\<close> that \<open>getAccountInfo\<close> passes to the
  request \<open>{a: 'uq', strg: 1, xfer: 1, pro: 1}\<close>: the calls of \<open>cb\<close> it makes. Reading a
  property of a response that is \<open>undefined\<close> or \<open>null\<close> throws a TypeError.
\<close>

definition getAccountInfo_cb :: "js_error option \<Rightarrow> jsval \<Rightarrow> cb_call list outcome" where
  "getAccountInfo_cb err response =
     (let calls = (case err of None \<Rightarrow> [] | Some e \<Rightarrow> [CbError e])
      in if response = JUndefined \<or> response = JNull then Threw TypeError calls
         else Done (calls @ [CbAccount (normalize response)]))"

section \<open>Readings and examples used by the properties\<close>

text \<open>
  What a run of a request added to the log: it did not throw, it posted \<open>nf\<close> fetches,
  set the timers \<open>ts\<close> and called the callback with \<open>cs\<close>, the last of these calls
  being the last thing it did.
\<close>

definition run_log :: "api \<Rightarrow> api outcome \<Rightarrow> nat \<Rightarrow> nat list \<Rightarrow> (js_error option \<times> jsval) list \<Rightarrow> bool" where
  "run_log a r nf ts cs =
     (\<exists>a' es. r = Done a' \<and> effects a' = effects a @ es \<and> length (fetches es) = nf
        \<and> timeouts es = ts \<and> callbacks es = cs
        \<and> (cs \<noteq> [] \<longrightarrow> es \<noteq> [] \<and> last es = Callback (fst (last cs)) (snd (last cs))))"

text \<open>An API as the constructor makes it, a request, and replies of the server.\<close>

definition example_api :: api where
  "example_api = new_API True None ''0.7312045518''"

definition example_request :: request where
  "example_request = Request [(''a'', JStr ''ug'')] None"

definition reply_busy :: reply where
  "reply_busy = Responds ''OK'' True (Some (JNum (- 3)))"

definition reply_busy_array :: reply where
  "reply_busy_array = Responds ''OK'' True (Some (JArr [JNum (- 3)]))"

definition reply_too_busy :: reply where
  "reply_too_busy = Responds ''Server Too Busy'' False None"

definition reply_user :: reply where
  "reply_user = Responds ''OK'' True (Some (JArr [JObj [(''u'', JStr ''me'')]]))"

definition reply_sn :: reply where
  "reply_sn = Responds ''OK'' True (Some (JArr [JObj [(''sn'', JStr ''Zx3'')]]))"


text \<open>No \<open>_querystring\<close> of the request sets the parameter \<open>k\<close>.\<close>

definition leaves_param :: "string \<Rightarrow> request \<Rightarrow> bool" where
  "leaves_param k rq = (case querystring rq of None \<Rightarrow> True | Some q \<Rightarrow> k \<notin> fst ` set q)"




text \<open>
  A session that has logged in: it has a master key and a session id that is not
  empty, which its transport holds too.
\<close>

definition logged_in :: "storage \<Rightarrow> bool" where
  "logged_in s = (key s \<noteq> None \<and> storage_sid s \<noteq> None \<and> storage_sid s \<noteq> Some []
                  \<and> sid (api s) = storage_sid s)"

text \<open>
  Modelled from the spec: the helpers \<open>e64\<close> and \<open>d64\<close> (crypto/index.mjs is not among
  the sources) as the base64url encoding, without padding, that the spec names for the
  snapshot's key. They serve as an instance of the parameters of \<open>toJSON\<close> and
  \<open>fromJSON\<close>.
\<close>

definition b64url_alphabet :: string where
  "b64url_alphabet = ''ABCDEFGHIJKLMNOPQRSTUVWXYZabcdefghijklmnopqrstuvwxyz0123456789-_''"

fun b64url_encode :: "nat list \<Rightarrow> string" where
  "b64url_encode (a # b # c # bs) =
     [b64url_alphabet ! (a div 4), b64url_alphabet ! ((a mod 4) * 16 + b div 16),
      b64url_alphabet ! ((b mod 16) * 4 + c div 64), b64url_alphabet ! (c mod 64)] @ b64url_encode bs"
| "b64url_encode [a, b] =
     [b64url_alphabet ! (a div 4), b64url_alphabet ! ((a mod 4) * 16 + b div 16),
      b64url_alphabet ! ((b mod 16) * 4)]"
| "b64url_encode [a] = [b64url_alphabet ! (a div 4), b64url_alphabet ! ((a mod 4) * 16)]"
| "b64url_encode [] = []"

definition b64url_index :: "char \<Rightarrow> nat" where
  "b64url_index c = length (takeWhile (\<lambda>x. x \<noteq> c) b64url_alphabet)"

fun b64url_decode :: "string \<Rightarrow> nat list" where
  "b64url_decode (w # x # y # z # cs) =
     [b64url_index w * 4 + b64url_index x div 16,
      (b64url_index x mod 16) * 16 + b64url_index y div 4,
      (b64url_index y mod 4) * 64 + b64url_index z] @ b64url_decode cs"
| "b64url_decode [w, x, y] =
     [b64url_index w * 4 + b64url_index x div 16,
      (b64url_index x mod 16) * 16 + b64url_index y div 4]"
| "b64url_decode [w, x] = [b64url_index w * 4 + b64url_index x div 16]"
| "b64url_decode cs = []"

definition example_e64 :: "nat list option \<Rightarrow> string" where
  "example_e64 k = (case k of None \<Rightarrow> [] | Some bs \<Rightarrow> b64url_encode bs)"

definition example_options :: options where
  "example_options = \<lparr>email = Some ''user@example.com'', password = None, opt_keepalive = None,
                       autoload = None, autologin = None, opt_gateway = None\<rparr>"

definition example_session :: storage where
  "example_session =
     (fst (new_Storage example_options ''0.4409281736''))
       \<lparr>api := (new_API True None ''0.4409281736'')\<lparr>sid := Some ''s1dA-b_9''\<rparr>,
        status := Ready,
        key := Some [0, 17, 34, 51, 68, 85, 102, 119, 136, 153, 170, 187, 204, 221, 238, 255],
        aes := Some [0, 17, 34, 51, 68, 85, 102, 119, 136, 153, 170, 187, 204, 221, 238, 255],
        storage_sid := Some ''s1dA-b_9'', account_name := JStr ''User'', user := JStr ''u1''\<rparr>"






text \<open>
  A graph whose links agree: every file that has a parent is in the \<open>children\<close> of that
  parent. The loads and the moves keep a graph so; the end of a delete does not (the
  file keeps its \<open>parent\<close>).
\<close>

definition consistent :: "graph \<Rightarrow> bool" where
  "consistent s = (\<forall>g p. parent_of s g = Some p \<longrightarrow> (\<exists>cs. children_at s p = Some cs \<and> g \<in> set cs))"



text \<open>The events a step added to the log all satisfy \<open>Q\<close>.\<close>

definition emits_only :: "(event \<Rightarrow> bool) \<Rightarrow> graph \<Rightarrow> graph \<Rightarrow> bool" where
  "emits_only Q s s' = (\<exists>evs. events s' = events s @ evs \<and> list_all Q evs)"


text \<open>
  The state of a scan with respect to a known file \<open>H\<close>: before its move, and after
  its move to \<open>P\<close>, when it has \<open>P\<close> as parent and is not marked as deleted.
\<close>

definition settled :: "handle \<Rightarrow> handle \<Rightarrow> graph \<Rightarrow> handle list \<Rightarrow> bool" where
  "settled H P s d = (consistent s \<and> distinct d \<and> files s H \<noteq> None \<and> parent_of s H = Some P \<and> H \<notin> set d)"


text \<open>A drive \<open>r\<close> with the folders \<open>a\<close> and \<open>b\<close>, and a file \<open>h\<close> in \<open>a\<close>.\<close>

definition example_records :: "node_record list" where
  "example_records =
     [NodeRecord ''r'' None 2 0 [], NodeRecord ''a'' (Some ''r'') 1 0 [],
      NodeRecord ''b'' (Some ''r'') 1 0 [], NodeRecord ''h'' (Some ''a'') 0 0 []]"

definition example_graph :: graph where
  "example_graph = the_state (import_all example_records empty_graph)"

definition move_h_to_b :: action where
  "move_h_to_b = ActT [NodeRecord ''h'' (Some ''b'') 0 0 []]"

text \<open>A Storage that has logged in and holds the example graph.\<close>

definition example_storage :: storage where
  "example_storage = example_session\<lparr>fgraph := example_graph\<rparr>"

section \<open>Properties of the account information\<close>

text \<open>
  C7. \<open>getAccountInfo\<close> normalizes the quota response with defaults: when the server's
  response object has no \<open>mxfer\<close>, the account's \<open>downloadBandwidthTotal\<close> is the
  sentinel \<open>10 * 1024^5 = 11258999068426240\<close> and not zero; when it has no \<open>caxfer\<close>
  (no \<open>csxfer\<close>), \<open>downloadBandwidthUsed\<close> (\<open>sharedBandwidthUsed\<close>) is \<open>0\<close>. The
  callback is called once, with that account.
\<close>

theorem getAccountInfo_defaults:
  "getAccountInfo_cb None (JObj kvs) = Done [CbAccount (normalize (JObj kvs))] \<and>
   (map_of kvs ''mxfer'' = None \<longrightarrow>
      downloadBandwidthTotal (normalize (JObj kvs)) = JNum (10 * 1024 ^ 5) \<and>
      downloadBandwidthTotal (normalize (JObj kvs)) = JNum 11258999068426240 \<and>
      downloadBandwidthTotal (normalize (JObj kvs)) \<noteq> JNum 0) \<and>
   (map_of kvs ''caxfer'' = None \<longrightarrow> downloadBandwidthUsed (normalize (JObj kvs)) = JNum 0) \<and>
   (map_of kvs ''csxfer'' = None \<longrightarrow> sharedBandwidthUsed (normalize (JObj kvs)) = JNum 0)"
  by (simp add: getAccountInfo_cb_def normalize_def js_or_def)

theorem getAccountInfo_defaults_witness:
  "map_of [(''utype'', JNum 0), (''cstrg'', JNum 7)] ''mxfer'' = None \<and>
   map_of [(''utype'', JNum 0), (''cstrg'', JNum 7)] ''caxfer'' = None \<and>
   map_of [(''utype'', JNum 0), (''cstrg'', JNum 7)] ''csxfer'' = None \<and>
   downloadBandwidthTotal (normalize (JObj [(''utype'', JNum 0), (''cstrg'', JNum 7)])) = JNum 11258999068426240 \<and>
   downloadBandwidthUsed (normalize (JObj [(''utype'', JNum 0), (''cstrg'', JNum 7)])) = JNum 0 \<and>
   sharedBandwidthUsed (normalize (JObj [(''utype'', JNum 0), (''cstrg'', JNum 7)])) = JNum 0"
  using getAccountInfo_defaults [of "[(''utype'', JNum 0), (''cstrg'', JNum 7)]"]
  by simp

text \<open>
  C10. When the request yields an error \<open>e\<close>, the function calls \<open>cb(e)\<close> and does not
  return: it goes on exactly as it does without an error on the same response. So it
  throws a TypeError when the response is absent (reading \<open>response.utype\<close>), and
  otherwise calls the callback a second time with an account.
\<close>

theorem getAccountInfo_error_falls_through:
  "the_state (getAccountInfo_cb (Some e) response)
     = CbError e # the_state (getAccountInfo_cb None response) \<and>
   threw (getAccountInfo_cb (Some e) response) = threw (getAccountInfo_cb None response) \<and>
   getAccountInfo_cb (Some e) JUndefined = Threw TypeError [CbError e] \<and>
   getAccountInfo_cb (Some e) (JNum (- 9))
     = Done [CbError e, CbAccount (normalize (JNum (- 9)))]"
  by (simp add: getAccountInfo_cb_def the_state_def threw_def)

section \<open>Properties of the transport\<close>

lemma timeouts_append: "timeouts (xs @ ys) = timeouts xs @ timeouts ys"
  by (induction xs rule: timeouts.induct) simp_all

lemma callbacks_append: "callbacks (xs @ ys) = callbacks xs @ callbacks ys"
  by (induction xs rule: callbacks.induct) simp_all

lemma fetches_append: "fetches (xs @ ys) = fetches xs @ fetches ys"
  by (induction xs rule: fetches.induct) simp_all

lemma isLogout_payload: "isLogout (Request (payload rq) q) = isLogout rq"
  by (simp add: isLogout_def)

lemma request_call_open:
  assumes "\<not> closed a \<or> isLogout rq"
  shows "\<exists>a1 qs. request_call rq a = Done a1 \<and> closed a1 = closed a
          \<and> effects a1 = effects a @ [Fetch qs (payload rq)]"
  using assms by (auto simp: request_call_def perform_def Let_def)

lemma settle_EAGAIN_retry:
  assumes "\<not> closed a \<or> isLogout rq" "answers_EAGAIN r" "n < MAX_RETRIES"
  shows "request_settle rq n r a = Retrying (perform (SetTimeout (2 ^ (n + 1) * 1000)) a)"
  using assms
  by (auto simp: request_settle_def request_then_def answers_EAGAIN_def negative_number_def Let_def
      split: reply.splits sum.splits)

lemma settle_EAGAIN_fail:
  assumes "\<not> closed a \<or> isLogout rq" "answers_EAGAIN r" "\<not> n < MAX_RETRIES"
  shows "request_settle rq n r a = Finished (perform (Callback (Some (api_error (- 3))) (JNum (- 3))) a)"
  using assms
  by (auto simp: request_settle_def request_then_def answers_EAGAIN_def negative_number_def number_of_def Let_def
      split: reply.splits sum.splits)

lemma settle_success:
  assumes "\<not> closed a \<or> isLogout rq" "answers_success r v"
  shows "\<exists>a' es. request_settle rq n r a = Finished a' \<and> effects a' = effects a @ es @ [Callback None v]
            \<and> timeouts es = [] \<and> callbacks es = [] \<and> fetches es = []"
  using assms
  by (auto simp: request_settle_def request_then_def answers_success_def Let_def perform_def pull_def
      split: reply.splits sum.splits)

lemma run_retry:
  assumes op: "\<not> closed a \<or> isLogout rq" and r: "answers_EAGAIN r" and n: "n < MAX_RETRIES"
    and rest: "\<And>a2. \<not> closed a2 \<or> isLogout rq \<Longrightarrow> run_log a2 (request_run rs (Request (payload rq) None) (Suc n) a2) nf ts cs"
    and cs: "cs \<noteq> []"
  shows "run_log a (request_run (r # rs) rq n a) (Suc nf) (2 ^ (n + 1) * 1000 # ts) cs"
proof -
  obtain a1 qs where a1: "request_call rq a = Done a1" "closed a1 = closed a"
      "effects a1 = effects a @ [Fetch qs (payload rq)]"
    using request_call_open [OF op] by blast
  have op1: "\<not> closed a1 \<or> isLogout rq" using op a1 by simp
  let ?a2 = "perform (SetTimeout (2 ^ (n + 1) * 1000)) a1"
  have st: "request_settle rq n r a1 = Retrying ?a2"
    by (rule settle_EAGAIN_retry [OF op1 r n])
  have op2: "\<not> closed ?a2 \<or> isLogout rq" using op1 by (simp add: perform_def)
  from rest [OF op2] obtain a' es where res: "request_run rs (Request (payload rq) None) (Suc n) ?a2 = Done a'"
      "effects a' = effects ?a2 @ es" "length (fetches es) = nf" "timeouts es = ts" "callbacks es = cs"
      "es \<noteq> []" "last es = Callback (fst (last cs)) (snd (last cs))"
    using cs unfolding run_log_def by blast
  have run: "request_run (r # rs) rq n a = Done a'"
    using a1 st res by simp
  have eff: "effects a' = effects a @ ([Fetch qs (payload rq), SetTimeout (2 ^ (n + 1) * 1000)] @ es)"
    using res a1 by (simp add: perform_def)
  show ?thesis
    unfolding run_log_def
    apply (rule exI [of _ a'], rule exI [of _ "[Fetch qs (payload rq), SetTimeout (2 ^ (n + 1) * 1000)] @ es"])
    using run eff res by (simp add: fetches_append timeouts_append callbacks_append)
qed

lemma run_fail:
  assumes op: "\<not> closed a \<or> isLogout rq" and r: "answers_EAGAIN r" and n: "\<not> n < MAX_RETRIES"
  shows "run_log a (request_run (r # rs) rq n a) (Suc 0) [] [(Some (api_error (- 3)), JNum (- 3))]"
proof -
  obtain a1 qs where a1: "request_call rq a = Done a1" "closed a1 = closed a"
      "effects a1 = effects a @ [Fetch qs (payload rq)]"
    using request_call_open [OF op] by blast
  have op1: "\<not> closed a1 \<or> isLogout rq" using op a1 by simp
  have st: "request_settle rq n r a1 = Finished (perform (Callback (Some (api_error (- 3))) (JNum (- 3))) a1)"
    by (rule settle_EAGAIN_fail [OF op1 r n])
  show ?thesis
    unfolding run_log_def
    apply (rule exI [of _ "perform (Callback (Some (api_error (- 3))) (JNum (- 3))) a1"],
           rule exI [of _ "[Fetch qs (payload rq), Callback (Some (api_error (- 3))) (JNum (- 3))]"])
    using a1 st by (simp add: perform_def)
qed

lemma run_success:
  assumes op: "\<not> closed a \<or> isLogout rq" and r: "answers_success r v"
  shows "run_log a (request_run (r # rs) rq n a) (Suc 0) [] [(None, v)]"
proof -
  obtain a1 qs where a1: "request_call rq a = Done a1" "closed a1 = closed a"
      "effects a1 = effects a @ [Fetch qs (payload rq)]"
    using request_call_open [OF op] by blast
  have op1: "\<not> closed a1 \<or> isLogout rq" using op a1 by simp
  obtain a' es where st: "request_settle rq n r a1 = Finished a'" "effects a' = effects a1 @ es @ [Callback None v]"
       "timeouts es = []" "callbacks es = []" "fetches es = []"
    using settle_success [OF op1 r] by blast
  show ?thesis
    unfolding run_log_def
    apply (rule exI [of _ a'], rule exI [of _ "Fetch qs (payload rq) # es @ [Callback None v]"])
    using a1 st by (simp add: fetches_append timeouts_append callbacks_append)
qed

lemma api_error_EAGAIN:
  "api_error (- 3) = Error ''EAGAIN (-3): A temporary congestion or server malfunction prevented your request from being processed. No data was altered. Retried 4 times.''"
  by (simp add: api_error_def ERRORS_def)

lemma run_log_reads:
  assumes "run_log a r nf ts cs" "cs \<noteq> []"
  shows "\<not> threw r \<and> length (fetches (new_effects a (the_state r))) = nf \<and>
         timeouts (new_effects a (the_state r)) = ts \<and> callbacks (new_effects a (the_state r)) = cs \<and>
         last (new_effects a (the_state r)) = Callback (fst (last cs)) (snd (last cs))"
  using assms unfolding run_log_def by (auto simp: threw_def the_state_def new_effects_def)

text \<open>
  C3. For every unary request on an API that is not closed (or the logout request): when
  the server answers \<open>-3\<close> three times and then succeeds with \<open>v\<close>, the request posts
  four fetches, sets exactly three timers, of 2000, 4000 and 8000 milliseconds, and
  ends by delivering \<open>cb(undefined, v)\<close>; when the server answers \<open>-3\<close> five times, the
  request posts five fetches, sets exactly four timers (2000, 4000, 8000, 16000) and
  delivers the EAGAIN error, once.
\<close>

theorem request_retry_policy:
  assumes op: "\<not> closed a \<or> isLogout rq"
  shows "(answers_EAGAIN r1 \<and> answers_EAGAIN r2 \<and> answers_EAGAIN r3 \<and> answers_success r4 v \<longrightarrow>
            \<not> threw (request_run (r1 # r2 # r3 # r4 # rest) rq 0 a) \<and>
            length (fetches (new_effects a (the_state (request_run (r1 # r2 # r3 # r4 # rest) rq 0 a)))) = 4 \<and>
            timeouts (new_effects a (the_state (request_run (r1 # r2 # r3 # r4 # rest) rq 0 a))) = [2000, 4000, 8000] \<and>
            callbacks (new_effects a (the_state (request_run (r1 # r2 # r3 # r4 # rest) rq 0 a))) = [(None, v)] \<and>
            last (new_effects a (the_state (request_run (r1 # r2 # r3 # r4 # rest) rq 0 a))) = Callback None v) \<and>
         (answers_EAGAIN r1 \<and> answers_EAGAIN r2 \<and> answers_EAGAIN r3 \<and> answers_EAGAIN r4 \<and> answers_EAGAIN r5 \<longrightarrow>
            \<not> threw (request_run (r1 # r2 # r3 # r4 # r5 # rest) rq 0 a) \<and>
            length (fetches (new_effects a (the_state (request_run (r1 # r2 # r3 # r4 # r5 # rest) rq 0 a)))) = 5 \<and>
            timeouts (new_effects a (the_state (request_run (r1 # r2 # r3 # r4 # r5 # rest) rq 0 a)))
              = [2000, 4000, 8000, 16000] \<and>
            callbacks (new_effects a (the_state (request_run (r1 # r2 # r3 # r4 # r5 # rest) rq 0 a)))
              = [(Some (Error ''EAGAIN (-3): A temporary congestion or server malfunction prevented your request from being processed. No data was altered. Retried 4 times.''), JNum (- 3))])"
proof (intro conjI impI)
  define rq' where "rq' = Request (payload rq) None"
  have rq': "Request (payload rq') None = rq'" "isLogout rq' = isLogout rq"
    by (simp_all add: rq'_def isLogout_def)
  {
    assume h: "answers_EAGAIN r1 \<and> answers_EAGAIN r2 \<and> answers_EAGAIN r3 \<and> answers_success r4 v"
    have l4: "run_log b (request_run (r4 # rest) rq' (Suc (Suc (Suc 0))) b) (Suc 0) [] [(None, v)]"
      if "\<not> closed b \<or> isLogout rq'" for b
      using run_success [of b rq' r4 v rest "Suc (Suc (Suc 0))"] that h by (simp del: request_run.simps)
    have l3: "run_log b (request_run (r3 # r4 # rest) rq' (Suc (Suc 0)) b) (Suc (Suc 0)) [8000] [(None, v)]"
      if "\<not> closed b \<or> isLogout rq'" for b
    proof -
      have "run_log b (request_run (r3 # r4 # rest) rq' (Suc (Suc 0)) b) (Suc (Suc 0)) (2 ^ ((Suc (Suc 0)) + 1) * 1000 # []) [(None, v)]"
        by (rule run_retry) (use that h l4 rq' in \<open>simp_all add: MAX_RETRIES_def  del: request_run.simps\<close>)
      then show ?thesis by (simp del: request_run.simps)
    qed
    have l2: "run_log b (request_run (r2 # r3 # r4 # rest) rq' (Suc 0) b) (Suc (Suc (Suc 0))) [4000, 8000] [(None, v)]"
      if "\<not> closed b \<or> isLogout rq'" for b
    proof -
      have "run_log b (request_run (r2 # r3 # r4 # rest) rq' (Suc 0) b) (Suc (Suc (Suc 0))) (2 ^ ((Suc 0) + 1) * 1000 # [8000]) [(None, v)]"
        by (rule run_retry) (use that h l3 rq' in \<open>simp_all add: MAX_RETRIES_def  del: request_run.simps\<close>)
      then show ?thesis by (simp del: request_run.simps)
    qed
    have l1: "run_log a (request_run (r1 # r2 # r3 # r4 # rest) rq 0 a) (Suc (Suc (Suc (Suc 0)))) [2000, 4000, 8000] [(None, v)]"
    proof -
      have "run_log a (request_run (r1 # r2 # r3 # r4 # rest) rq 0 a) (Suc (Suc (Suc (Suc 0)))) (2 ^ (0 + 1) * 1000 # [4000, 8000]) [(None, v)]"
        by (rule run_retry) (use op h l2 rq' in \<open>simp_all add: MAX_RETRIES_def rq'_def [symmetric] del: request_run.simps\<close>)
      then show ?thesis by (simp del: request_run.simps)
    qed
    note run_log_reads [OF l1]
  }
  note a = this
  {
    assume h: "answers_EAGAIN r1 \<and> answers_EAGAIN r2 \<and> answers_EAGAIN r3 \<and> answers_EAGAIN r4 \<and> answers_EAGAIN r5"
    let ?cs = "[(Some (api_error (- 3)), JNum (- 3))]"
    have l5: "run_log b (request_run (r5 # rest) rq' (Suc (Suc (Suc (Suc 0)))) b) (Suc 0) [] ?cs"
      if "\<not> closed b \<or> isLogout rq'" for b
      using run_fail [of b rq' r5 "Suc (Suc (Suc (Suc 0)))" rest] that h by (simp add: MAX_RETRIES_def del: request_run.simps)
    have l4: "run_log b (request_run (r4 # r5 # rest) rq' (Suc (Suc (Suc 0))) b) (Suc (Suc 0)) [16000] ?cs"
      if "\<not> closed b \<or> isLogout rq'" for b
    proof -
      have "run_log b (request_run (r4 # r5 # rest) rq' (Suc (Suc (Suc 0))) b) (Suc (Suc 0)) (2 ^ ((Suc (Suc (Suc 0))) + 1) * 1000 # []) ?cs"
        by (rule run_retry) (use that h l5 rq' in \<open>simp_all add: MAX_RETRIES_def  del: request_run.simps\<close>)
      then show ?thesis by (simp del: request_run.simps)
    qed
    have l3: "run_log b (request_run (r3 # r4 # r5 # rest) rq' (Suc (Suc 0)) b) (Suc (Suc (Suc 0))) [8000, 16000] ?cs"
      if "\<not> closed b \<or> isLogout rq'" for b
    proof -
      have "run_log b (request_run (r3 # r4 # r5 # rest) rq' (Suc (Suc 0)) b) (Suc (Suc (Suc 0))) (2 ^ ((Suc (Suc 0)) + 1) * 1000 # [16000]) ?cs"
        by (rule run_retry) (use that h l4 rq' in \<open>simp_all add: MAX_RETRIES_def  del: request_run.simps\<close>)
      then show ?thesis by (simp del: request_run.simps)
    qed
    have l2: "run_log b (request_run (r2 # r3 # r4 # r5 # rest) rq' (Suc 0) b) (Suc (Suc (Suc (Suc 0)))) [4000, 8000, 16000] ?cs"
      if "\<not> closed b \<or> isLogout rq'" for b
    proof -
      have "run_log b (request_run (r2 # r3 # r4 # r5 # rest) rq' (Suc 0) b) (Suc (Suc (Suc (Suc 0)))) (2 ^ ((Suc 0) + 1) * 1000 # [8000, 16000]) ?cs"
        by (rule run_retry) (use that h l3 rq' in \<open>simp_all add: MAX_RETRIES_def  del: request_run.simps\<close>)
      then show ?thesis by (simp del: request_run.simps)
    qed
    have l1: "run_log a (request_run (r1 # r2 # r3 # r4 # r5 # rest) rq 0 a) (Suc (Suc (Suc (Suc (Suc 0))))) [2000, 4000, 8000, 16000] ?cs"
    proof -
      have "run_log a (request_run (r1 # r2 # r3 # r4 # r5 # rest) rq 0 a) (Suc (Suc (Suc (Suc (Suc 0))))) (2 ^ (0 + 1) * 1000 # [4000, 8000, 16000]) ?cs"
        by (rule run_retry) (use op h l2 rq' in \<open>simp_all add: MAX_RETRIES_def rq'_def [symmetric] del: request_run.simps\<close>)
      then show ?thesis by (simp del: request_run.simps)
    qed
    note run_log_reads [OF l1]
  }
  note b = this
  show "answers_EAGAIN r1 \<and> answers_EAGAIN r2 \<and> answers_EAGAIN r3 \<and> answers_success r4 v \<Longrightarrow>
     \<not> threw (request_run (r1 # r2 # r3 # r4 # rest) rq 0 a)" using a by (simp del: request_run.simps)
  show "answers_EAGAIN r1 \<and> answers_EAGAIN r2 \<and> answers_EAGAIN r3 \<and> answers_success r4 v \<Longrightarrow>
     length (fetches (new_effects a (the_state (request_run (r1 # r2 # r3 # r4 # rest) rq 0 a)))) = 4" using a by (simp del: request_run.simps)
  show "answers_EAGAIN r1 \<and> answers_EAGAIN r2 \<and> answers_EAGAIN r3 \<and> answers_success r4 v \<Longrightarrow>
     timeouts (new_effects a (the_state (request_run (r1 # r2 # r3 # r4 # rest) rq 0 a))) = [2000, 4000, 8000]" using a by (simp del: request_run.simps)
  show "answers_EAGAIN r1 \<and> answers_EAGAIN r2 \<and> answers_EAGAIN r3 \<and> answers_success r4 v \<Longrightarrow>
     callbacks (new_effects a (the_state (request_run (r1 # r2 # r3 # r4 # rest) rq 0 a))) = [(None, v)]" using a by (simp del: request_run.simps)
  show "answers_EAGAIN r1 \<and> answers_EAGAIN r2 \<and> answers_EAGAIN r3 \<and> answers_success r4 v \<Longrightarrow>
     last (new_effects a (the_state (request_run (r1 # r2 # r3 # r4 # rest) rq 0 a))) = Callback None v" using a by (simp del: request_run.simps)
  show "answers_EAGAIN r1 \<and> answers_EAGAIN r2 \<and> answers_EAGAIN r3 \<and> answers_EAGAIN r4 \<and> answers_EAGAIN r5 \<Longrightarrow>
     \<not> threw (request_run (r1 # r2 # r3 # r4 # r5 # rest) rq 0 a)" using b by (simp del: request_run.simps)
  show "answers_EAGAIN r1 \<and> answers_EAGAIN r2 \<and> answers_EAGAIN r3 \<and> answers_EAGAIN r4 \<and> answers_EAGAIN r5 \<Longrightarrow>
     length (fetches (new_effects a (the_state (request_run (r1 # r2 # r3 # r4 # r5 # rest) rq 0 a)))) = 5" using b by (simp del: request_run.simps)
  show "answers_EAGAIN r1 \<and> answers_EAGAIN r2 \<and> answers_EAGAIN r3 \<and> answers_EAGAIN r4 \<and> answers_EAGAIN r5 \<Longrightarrow>
     timeouts (new_effects a (the_state (request_run (r1 # r2 # r3 # r4 # r5 # rest) rq 0 a))) = [2000, 4000, 8000, 16000]" using b by (simp del: request_run.simps)
  show "answers_EAGAIN r1 \<and> answers_EAGAIN r2 \<and> answers_EAGAIN r3 \<and> answers_EAGAIN r4 \<and> answers_EAGAIN r5 \<Longrightarrow>
     callbacks (new_effects a (the_state (request_run (r1 # r2 # r3 # r4 # r5 # rest) rq 0 a)))
       = [(Some (Error ''EAGAIN (-3): A temporary congestion or server malfunction prevented your request from being processed. No data was altered. Retried 4 times.''), JNum (- 3))]"
    using b by (simp add: api_error_EAGAIN del: request_run.simps)
qed


theorem request_retry_policy_witness:
  "\<not> closed example_api \<and>
   answers_EAGAIN reply_busy \<and> answers_EAGAIN reply_too_busy \<and> answers_EAGAIN reply_busy_array \<and>
   answers_success reply_user (JObj [(''u'', JStr ''me'')]) \<and>
   timeouts (new_effects example_api (the_state
      (request_run [reply_busy, reply_too_busy, reply_busy_array, reply_user] example_request 0 example_api)))
     = [2000, 4000, 8000] \<and>
   callbacks (new_effects example_api (the_state
      (request_run [reply_busy, reply_too_busy, reply_busy_array, reply_user] example_request 0 example_api)))
     = [(None, JObj [(''u'', JStr ''me'')])] \<and>
   timeouts (new_effects example_api (the_state
      (request_run [reply_busy, reply_too_busy, reply_busy_array, reply_busy, reply_busy] example_request 0 example_api)))
     = [2000, 4000, 8000, 16000] \<and>
   length (callbacks (new_effects example_api (the_state
      (request_run [reply_busy, reply_too_busy, reply_busy_array, reply_busy, reply_busy] example_request 0 example_api))))
     = 1"
proof -
  have nc: "\<not> closed example_api"
    by (simp add: example_api_def new_API_def)
  then have op: "\<not> closed example_api \<or> isLogout example_request" ..
  have b1: "answers_EAGAIN reply_busy"
    by (simp add: answers_EAGAIN_def reply_busy_def handleApiResponse_def first_of_def)
  have b2: "answers_EAGAIN reply_too_busy"
    by (simp add: answers_EAGAIN_def reply_too_busy_def handleApiResponse_def first_of_def)
  have b3: "answers_EAGAIN reply_busy_array"
    by (simp add: answers_EAGAIN_def reply_busy_array_def handleApiResponse_def first_of_def)
  have ok: "answers_success reply_user (JObj [(''u'', JStr ''me'')])"
    by (simp add: answers_success_def reply_user_def handleApiResponse_def first_of_def
        negative_number_def)
  show ?thesis
    using nc b1 b2 b3 ok
      request_retry_policy [OF op, where ?r1.0 = reply_busy and ?r2.0 = reply_too_busy
        and ?r3.0 = reply_busy_array and ?r4.0 = reply_user and v = "JObj [(''u'', JStr ''me'')]"
        and rest = "[]" and ?r5.0 = reply_busy]
      request_retry_policy [OF op, where ?r1.0 = reply_busy and ?r2.0 = reply_too_busy
        and ?r3.0 = reply_busy_array and ?r4.0 = reply_busy and v = JNull
        and rest = "[]" and ?r5.0 = reply_busy]
    by (simp del: request_run.simps)
qed

lemma poll_fetches_append: "poll_fetches (xs @ ys) = poll_fetches xs @ poll_fetches ys"
  by (induction xs rule: poll_fetches.induct) simp_all


text \<open>
  C4, as the code has it. On an API with \<open>keepalive\<close>, every response that is not a
  negative number and has a truthy \<open>sn\<close> calls \<open>pull\<close>, whether or not a long poll is in
  flight: one more long-poll fetch is posted, it joins the polls in flight, and its
  controller takes the place of the one in \<open>this.sn\<close>.
\<close>

theorem request_then_starts_poll:
  assumes "keepalive a" "\<not> closed a \<or> isLogout rq" "truthy resp"
      and "\<not> negative_number (first_of resp)" "truthy (first_of resp)"
      and "truthy (get_prop (first_of resp) ''sn'')"
  shows "\<exists>a'. request_then rq n resp a = Finished a' \<and>
           polls a' = polls a @ [controllers a] \<and> sn a' = Some (controllers a) \<and>
           length (polls a') = length (polls a) + 1 \<and>
           poll_fetches (new_effects a a') = [controllers a] \<and>
           callbacks (new_effects a a') = [(None, first_of resp)]"
  using assms
  by (auto simp: request_then_def Let_def perform_def pull_def new_effects_def)


theorem request_then_starts_poll_witness:
  "keepalive (pull (JStr ''Zx3'') example_api) \<and>
   \<not> closed (pull (JStr ''Zx3'') example_api) \<and>
   truthy (JArr [JObj [(''sn'', JStr ''Zx4'')]]) \<and>
   \<not> negative_number (first_of (JArr [JObj [(''sn'', JStr ''Zx4'')]])) \<and>
   truthy (first_of (JArr [JObj [(''sn'', JStr ''Zx4'')]])) \<and>
   truthy (get_prop (first_of (JArr [JObj [(''sn'', JStr ''Zx4'')]])) ''sn'') \<and>
   polls (pull (JStr ''Zx3'') example_api) = [0] \<and>
   (\<exists>a'. request_then example_request 0 (JArr [JObj [(''sn'', JStr ''Zx4'')]]) (pull (JStr ''Zx3'') example_api)
            = Finished a' \<and> polls a' = [0, 1] \<and> sn a' = Some 1)"
proof -
  have h: "keepalive (pull (JStr ''Zx3'') example_api)"
    "\<not> closed (pull (JStr ''Zx3'') example_api) \<or> isLogout example_request"
    "truthy (JArr [JObj [(''sn'', JStr ''Zx4'')]])"
    "\<not> negative_number (first_of (JArr [JObj [(''sn'', JStr ''Zx4'')]]))"
    "truthy (first_of (JArr [JObj [(''sn'', JStr ''Zx4'')]]))"
    "truthy (get_prop (first_of (JArr [JObj [(''sn'', JStr ''Zx4'')]])) ''sn'')"
    by (simp_all add: pull_def example_api_def new_API_def perform_def first_of_def negative_number_def Let_def)
  have p: "polls (pull (JStr ''Zx3'') example_api) = [0]" "controllers (pull (JStr ''Zx3'') example_api) = 1"
    by (simp_all add: pull_def example_api_def new_API_def perform_def Let_def)
  have nc: "\<not> closed (pull (JStr ''Zx3'') example_api)"
    by (simp add: pull_def example_api_def new_API_def perform_def Let_def)
  show ?thesis
    using nc h p request_then_starts_poll [OF h, of 0] by auto
qed

text \<open>
  C4, as the claim states it, fails: two responses with \<open>sn\<close> leave two long polls in
  flight on one API.
\<close>

theorem long_poll_started_twice:
  "polls (the_state (request_run [reply_sn] example_request 0
      (the_state (request_run [reply_sn] example_request 0 example_api)))) = [0, 1] \<and>
   poll_fetches (effects (the_state (request_run [reply_sn] example_request 0
      (the_state (request_run [reply_sn] example_request 0 example_api))))) = [0, 1]"
  by (simp add: example_api_def new_API_def example_request_def reply_sn_def request_call_def
      request_settle_def request_then_def handleApiResponse_def first_of_def negative_number_def
      number_of_def perform_def post_increment_def pull_def isLogout_def the_state_def Let_def)





lemma map_of_set_key: "map_of (set_key k v qs) = (map_of qs)(k \<mapsto> v)"
  by (induction qs) (auto simp: fun_eq_iff)

lemma map_of_Object_assign_other:
  "k \<notin> fst ` set src \<Longrightarrow> map_of (Object_assign target src) k = map_of target k"
  unfolding Object_assign_def
  by (induction src arbitrary: target) (auto simp: map_of_set_key)


lemma Object_assign_keeps_key:
  "map_of target k \<noteq> None \<Longrightarrow> map_of (Object_assign target src) k \<noteq> None"
  unfolding Object_assign_def
  by (induction src arbitrary: target) (auto simp: map_of_set_key)

lemma request_qs_has_id: "qs_param ''id'' (request_qs a rq n) \<noteq> None"
proof (cases "querystring rq")
  case None
  then show ?thesis by (simp add: request_qs_def qs_param_def Let_def split: option.splits)
next
  case (Some q)
  have "map_of (Object_assign qs q) ''id'' \<noteq> None" if "map_of qs ''id'' \<noteq> None" for qs
    using that by (rule Object_assign_keeps_key)
  then show ?thesis using Some
    by (simp add: request_qs_def qs_param_def Let_def split: option.splits)
qed






lemma new_API_counter:
  "list_all is_digit (take 10 (drop 2 rnd)) \<Longrightarrow>
   ToNumeric (counterId (new_API ka gw rnd)) = Finite (int (dec_value (take 10 (drop 2 rnd))))"
  by (simp add: new_API_def ToNumeric_def StringToNumber_def)


lemma map_of_Object_assign_sid:
  "leaves_param ''sid'' rq \<Longrightarrow> sid a = Some x \<Longrightarrow> x \<noteq> [] \<Longrightarrow> qs_param ''sid'' (request_qs a rq n) = Some x"
  by (auto simp: request_qs_def qs_param_def leaves_param_def Let_def map_of_Object_assign_other
      split: option.splits)

text \<open>
  C6. For a session that has logged in, and helpers with \<open>d64(e64(key)) = key\<close>:
  \<open>Storage.fromJSON(storage.toJSON())\<close> has the master key, session id, account name and
  user identifier of the original; its transport holds the session id and attaches it
  to the next request; and the constructor neither calls \<open>login\<close> nor posts a request.
\<close>

theorem fromJSON_toJSON:
  assumes "logged_in s" and "d64 (e64 (key s)) = the (key s)"
  shows "key (fst (fromJSON d64 rnd (toJSON e64 s))) = key s \<and>
         storage_sid (fst (fromJSON d64 rnd (toJSON e64 s))) = storage_sid s \<and>
         account_name (fst (fromJSON d64 rnd (toJSON e64 s))) = account_name s \<and>
         user (fst (fromJSON d64 rnd (toJSON e64 s))) = user s \<and>
         sid (api (fst (fromJSON d64 rnd (toJSON e64 s)))) = storage_sid s \<and>
         snd (fromJSON d64 rnd (toJSON e64 s)) = NextTickCallback \<and>
         effects (api (fst (fromJSON d64 rnd (toJSON e64 s)))) = [] \<and>
         (leaves_param ''sid'' rq \<longrightarrow>
            \<not> threw (request_call rq (api (fst (fromJSON d64 rnd (toJSON e64 s))))) \<and>
            map (qs_param ''sid'') (fetches (effects (the_state
                (request_call rq (api (fst (fromJSON d64 rnd (toJSON e64 s))))))))
              = [storage_sid s])"
  using assms
  by (auto simp: logged_in_def fromJSON_def toJSON_def new_Storage_def new_API_def Let_def default_true_def
       request_call_def perform_def threw_def the_state_def map_of_Object_assign_sid)


theorem fromJSON_toJSON_witness:
  "logged_in example_session \<and>
   b64url_decode (example_e64 (key example_session)) = the (key example_session) \<and>
   key (fst (fromJSON b64url_decode ''0.5821'' (toJSON example_e64 example_session)))
     = Some [0, 17, 34, 51, 68, 85, 102, 119, 136, 153, 170, 187, 204, 221, 238, 255] \<and>
   sid (api (fst (fromJSON b64url_decode ''0.5821'' (toJSON example_e64 example_session))))
     = Some ''s1dA-b_9'' \<and>
   snd (fromJSON b64url_decode ''0.5821'' (toJSON example_e64 example_session)) = NextTickCallback"
proof -
  have l: "logged_in example_session"
    by (simp add: logged_in_def example_session_def)
  have k: "key example_session
      = Some [0, 17, 34, 51, 68, 85, 102, 119, 136, 153, 170, 187, 204, 221, 238, 255]"
    "storage_sid example_session = Some ''s1dA-b_9''"
    by (simp_all add: example_session_def)
  have r: "b64url_decode (b64url_encode [0, 17, 34, 51, 68, 85, 102, 119, 136, 153, 170, 187, 204, 221, 238, 255])
      = [0, 17, 34, 51, 68, 85, 102, 119, 136, 153, 170, 187, 204, 221, 238, 255]"
    by code_simp
  have d: "b64url_decode (example_e64 (key example_session)) = the (key example_session)"
    using r by (simp add: k example_e64_def)
  show ?thesis
    using l d k
      fromJSON_toJSON [where s = example_session and ?d64.0 = b64url_decode and ?e64.0 = example_e64
        and rnd = "''0.5821''", OF l d]
    by simp
qed

section \<open>Properties of the file graph\<close>



lemma forEach_Done_invariant:
  assumes "forEach f xs s = Done s'" and "P s"
      and step: "\<And>x t t'. x \<in> set xs \<Longrightarrow> P t \<Longrightarrow> f x t = Done t' \<Longrightarrow> P t'"
  shows "P s'"
  using assms(1,2) step
proof (induction xs arbitrary: s)
  case Nil
  then show ?case by simp
next
  case (Cons x xs)
  from Cons.prems(1) obtain t where t: "f x s = Done t" "forEach f xs t = Done s'"
    by (auto split: outcome.splits)
  have Pt: "P t" using Cons.prems(3) [of x s t] Cons.prems(2) t by simp
  show ?case
  proof (rule Cons.IH [OF t(2) Pt])
    fix y u u' assume "y \<in> set xs" "P u" "f y u = Done u'"
    then show "P u'" using Cons.prems(3) [of y u u'] by simp
  qed
qed

subsection \<open>What the elementary changes do to the links\<close>


lemma known_modify [simp]: "(files (modify k g s) x = None) = (files s x = None)"
  by (simp add: modify_def split: option.splits)

lemma fields_modify [simp]:
  "events (modify k g s) = events s" "mounts (modify k g s) = mounts s"
  by (simp_all add: modify_def split: option.splits)

lemma parent_of_modify_same:
  "(\<And>y. parent (g y) = parent y) \<Longrightarrow> parent_of (modify k g s) x = parent_of s x"
  by (simp add: modify_def parent_of_def split: option.splits)

lemma children_at_modify_same:
  "(\<And>y. children (g y) = children y) \<Longrightarrow> children_at (modify k g s) x = children_at s x"
  by (simp add: modify_def children_at_def split: option.splits)

lemma parent_of_set_parent [simp]:
  "parent_of (modify k (\<lambda>y. y\<lparr>parent := v\<rparr>) s) x
     = (if x = k \<and> files s k \<noteq> None then v else parent_of s x)"
  by (simp add: modify_def parent_of_def split: option.splits)

lemma children_at_set_parent [simp]:
  "children_at (modify k (\<lambda>y. y\<lparr>parent := v\<rparr>) s) x = children_at s x"
  by (simp add: children_at_modify_same)

lemma children_at_set_children [simp]:
  "children_at (modify k (\<lambda>y. y\<lparr>children := v\<rparr>) s) x
     = (if x = k \<and> files s k \<noteq> None then v else children_at s x)"
  by (simp add: modify_def children_at_def split: option.splits)

lemma parent_of_set_children [simp]:
  "parent_of (modify k (\<lambda>y. y\<lparr>children := v\<rparr>) s) x = parent_of s x"
  by (simp add: parent_of_modify_same)

lemma children_at_push_child [simp]:
  "children_at (modify k (push_child c) s) x
     = (if x = k \<and> files s k \<noteq> None
        then Some ((case children_at s k of None \<Rightarrow> [] | Some cs \<Rightarrow> cs) @ [c])
        else children_at s x)"
  by (simp add: modify_def children_at_def push_child_def split: option.splits)

lemma parent_of_push_child [simp]:
  "parent_of (modify k (push_child c) s) x = parent_of s x"
  by (simp add: parent_of_modify_same push_child_def)

lemma links_set_fname [simp]:
  "parent_of (modify k (\<lambda>y. y\<lparr>fname := v\<rparr>) s) x = parent_of s x"
  "children_at (modify k (\<lambda>y. y\<lparr>fname := v\<rparr>) s) x = children_at s x"
  by (simp_all add: parent_of_modify_same children_at_modify_same)

lemma links_emit [simp]:
  "files (emit e s) = files s" "parent_of (emit e s) x = parent_of s x"
  "children_at (emit e s) x = children_at s x" "events (emit e s) = events s @ [e]"
  "mounts (emit e s) = mounts s"
  by (simp_all add: emit_def parent_of_def children_at_def)

lemma links_fields [simp]:
  "parent_of (s\<lparr>root := r\<rparr>) x = parent_of s x" "children_at (s\<lparr>root := r\<rparr>) x = children_at s x"
  "parent_of (s\<lparr>trash := r\<rparr>) x = parent_of s x" "children_at (s\<lparr>trash := r\<rparr>) x = children_at s x"
  "parent_of (s\<lparr>inbox := r\<rparr>) x = parent_of s x" "children_at (s\<lparr>inbox := r\<rparr>) x = children_at s x"
  "parent_of (s\<lparr>mounts := m\<rparr>) x = parent_of s x" "children_at (s\<lparr>mounts := m\<rparr>) x = children_at s x"
  "parent_of (s\<lparr>events := ev\<rparr>) x = parent_of s x" "children_at (s\<lparr>events := ev\<rparr>) x = children_at s x"
  by (simp_all add: parent_of_def children_at_def)

lemma links_new_file [simp]:
  "parent_of (s\<lparr>files := (files s)(h \<mapsto> new_MutableFile f)\<rparr>) x = (if x = h then None else parent_of s x)"
  "children_at (s\<lparr>files := (files s)(h \<mapsto> new_MutableFile f)\<rparr>) x = (if x = h then None else children_at s x)"
  by (simp_all add: parent_of_def children_at_def new_MutableFile_def)

lemma special_root_links [simp]:
  "parent_of (special_root f s) x = parent_of s x"
  "children_at (special_root f s) x = children_at s x"
  "(files (special_root f s) x = None) = (files s x = None)"
  "events (special_root f s) = events s" "mounts (special_root f s) = mounts s"
  by (simp_all add: special_root_def Let_def)

lemma link_parent_links:
  "(files (link_parent f s) x = None) = (files s x = None)"
  "events (link_parent f s) = events s"
  "parent_of (link_parent f s) x =
     (if x = f_h f \<and> files s x \<noteq> None \<and> f_p f \<noteq> None \<and> f_p f \<noteq> Some [] \<and> files s (key_of (f_p f)) \<noteq> None
      then f_p f else parent_of s x)"
  "children_at (link_parent f s) x =
     (if Some x = f_p f \<and> x \<noteq> [] \<and> files s x \<noteq> None
      then Some ((case children_at s x of None \<Rightarrow> [] | Some cs \<Rightarrow> cs) @ [f_h f])
      else children_at s x)"
  by (auto simp: link_parent_def key_of_def split: option.splits)

text \<open>\<open>_importFile\<close> of a record whose handle is new, when it does not throw.\<close>

lemma importFile_new:
  assumes "files s (f_h f) = None" "importFile f s = Done s'"
  shows "(files s' x = None) = (x \<noteq> f_h f \<and> files s x = None)"
    and "events s' = events s"
    and "parent_of s' x =
      (if x = f_h f then
         (if f_p f \<noteq> None \<and> f_p f \<noteq> Some [] \<and> (f_p f = Some (f_h f) \<or> files s (key_of (f_p f)) \<noteq> None)
          then f_p f else None)
       else parent_of s x)"
    and "children_at s' x =
      (if Some x = f_p f \<and> x \<noteq> [] \<and> (x = f_h f \<or> files s x \<noteq> None)
       then Some ((case (if x = f_h f then None else children_at s x) of None \<Rightarrow> [] | Some cs \<Rightarrow> cs) @ [f_h f])
       else if x = f_h f then None else children_at s x)"
  using assms
  by (auto simp: importFile_def Let_def link_parent_links key_of_def split: if_splits option.splits)

lemma importFile_old: "files s (f_h f) \<noteq> None \<Longrightarrow> importFile f s = Done s"
  by (simp add: importFile_def)


lemma unknown_links:
  "files s x = None \<Longrightarrow> children_at s x = None" "files s x = None \<Longrightarrow> parent_of s x = None"
  by (simp_all add: children_at_def parent_of_def)

subsection \<open>Orphans\<close>







text \<open>A load after \<open>reload\<close> has set \<open>mounts\<close> does not throw.\<close>

lemma link_parent_mounts [simp]: "mounts (link_parent f s) = mounts s"
  by (simp add: link_parent_def split: option.splits)

lemma importFile_mounts:
  assumes "mounts s \<noteq> None"
  shows "\<exists>s'. importFile f s = Done s' \<and> mounts s' \<noteq> None"
  using assms by (auto simp: importFile_def Let_def)

lemma import_all_never_throws:
  assumes "mounts s \<noteq> None"
  shows "\<exists>s'. import_all fs s = Done s' \<and> mounts s' \<noteq> None"
  using assms unfolding import_all_def
proof (induction fs arbitrary: s)
  case Nil
  then show ?case by simp
next
  case (Cons f fs)
  from importFile_mounts [OF Cons.prems, of f] obtain s1 where "importFile f s = Done s1" "mounts s1 \<noteq> None"
    by blast
  then show ?case using Cons.IH [of s1] by simp
qed



lemmas graph_eval = import_all_def importFile_def empty_graph_def special_root_def link_parent_def
  NODE_TYPE_DRIVE_def NODE_TYPE_INBOX_def NODE_TYPE_RUBBISH_BIN_def new_MutableFile_def
  child_count_def modify_def Let_def parent_of_def push_child_def threw_def the_state_def
  sc_handler_def sc_delete_def sc_move_def sc_update_def emit_def children_at_def key_of_def
  splice_indexOf_def mark_deleted_def unmark_deleted_def Object_keys_def is_array_index_def
  decryptAttributes_def is_digit_def



subsection \<open>Unknown handles in a change batch\<close>

lemma Object_keys_single: "Object_keys [n] = [n]"
  by (simp add: Object_keys_def)

lemma sc_handler_update_unknown:
  "files s n = None \<Longrightarrow> sc_handler [ActU n ts a] s = Done s"
  by (simp add: sc_handler_def sc_update_def Object_keys_def)

lemma sc_handler_delete_unknown:
  "files s n = None \<Longrightarrow> sc_handler [ActD n] s = Threw TypeError s"
  by (simp add: sc_handler_def mark_deleted_def Object_keys_single sc_delete_def)

text \<open>
  C5 fails on the code for the delete action: a batch with a delete of a handle that is
  not in the graph throws a TypeError at the end of the listener (\<open>file.parent\<close> of
  \<open>undefined\<close>), where an update of an unknown handle is skipped.
\<close>

theorem sc_handler_delete_unknown_throws:
  "sc_handler [ActD ''x''] empty_graph = Threw TypeError empty_graph \<and>
   sc_handler [ActU ''x'' 1 ''at''] empty_graph = Done empty_graph"
  by (simp add: sc_handler_delete_unknown sc_handler_update_unknown empty_graph_def)

subsection \<open>Consistent links\<close>

lemma consistentD:
  "consistent s \<Longrightarrow> parent_of s g = Some p \<Longrightarrow> \<exists>cs. children_at s p = Some cs \<and> g \<in> set cs"
  by (simp add: consistent_def)

lemma consistent_importFile:
  assumes "consistent s" "importFile f s = Done s'"
  shows "consistent s'"
proof (cases "files s (f_h f) = None")
  case False
  then show ?thesis using assms by (simp add: importFile_old)
next
  case True
  note new = importFile_new [OF True assms(2)]
  show ?thesis
    unfolding consistent_def
  proof (intro allI impI)
    fix g p assume gp: "parent_of s' g = Some p"
    show "\<exists>cs. children_at s' p = Some cs \<and> g \<in> set cs"
    proof (cases "g = f_h f")
      case True
      then show ?thesis using gp new(3) [of g] new(4) [of p]
        by (auto simp: key_of_def split: if_splits option.splits)
    next
      case False
      then have "parent_of s g = Some p" using gp new(3) [of g] by simp
      then obtain cs where cs: "children_at s p = Some cs" "g \<in> set cs"
        using consistentD [OF assms(1)] by blast
      then have "p \<noteq> f_h f" using unknown_links(1) [OF True] by auto
      then show ?thesis using cs new(4) [of p] by auto
    qed
  qed
qed

lemma sc_update_links [simp]:
  "parent_of (sc_update n ts a s) x = parent_of s x"
  "children_at (sc_update n ts a s) x = children_at s x"
  "(files (sc_update n ts a s) x = None) = (files s x = None)"
  by (simp_all add: sc_update_def parent_of_modify_same children_at_modify_same decryptAttributes_def
      split: option.splits)

lemma sc_update_known [simp]:
  "(\<exists>y. files (sc_update n ts a s) x = Some y) = (\<exists>y. files s x = Some y)"
  using sc_update_links(3) [of n ts a s x] by (metis not_None_eq)

lemma consistent_sc_update: "consistent s \<Longrightarrow> consistent (sc_update n ts a s)"
  by (simp add: consistent_def)

lemma splice_consistent:
  assumes "consistent s" "parent_of s h = Some op" "children_at s op = Some cs"
  shows "splice_indexOf h cs = remove1 h cs"
  using consistentD [OF assms(1,2)] assms(3) by (simp add: splice_indexOf_def)

lemma files_modify_Some:
  "(files (modify k g s) x = Some y) = (\<exists>z. files s x = Some z \<and> y = (if x = k then g z else z))"
  by (auto simp: modify_def split: option.splits)

text \<open>A node of a \<open>'t'\<close> action whose file is known, when the action does not throw.\<close>

lemma sc_move_known:
  assumes "files s (f_h f) \<noteq> None" "sc_move f (s, d) = Done (s', d')"
  shows "d' = unmark_deleted (f_h f) d"
    and "(files s' x = None) = (files s x = None)"
    and "\<exists>op. parent_of s (f_h f) = Some op \<and>
          (if Some op = f_p f then s' = s
           else (\<exists>cs. children_at s op = Some cs \<and> files s (key_of (f_p f)) \<noteq> None \<and>
                  events s' = events s @ [FileMove (f_h f) op, Move (f_h f) op] \<and>
                  (\<forall>x. parent_of s' x = (if x = f_h f then Some (key_of (f_p f)) else parent_of s x)) \<and>
                  (\<forall>x. children_at s' x =
                     (if x = key_of (f_p f)
                      then Some ((case (if x = op then Some (splice_indexOf (f_h f) cs) else children_at s x) of
                                   None \<Rightarrow> [] | Some c \<Rightarrow> c) @ [f_h f])
                      else if x = op then Some (splice_indexOf (f_h f) cs) else children_at s x))))"
  using assms
  by (auto simp: sc_move_def Let_def parent_of_def [of s] children_at_def [of s] files_modify_Some
      split: option.splits if_splits)


lemma sc_move_unknown:
  assumes "files s (f_h f) = None" "sc_move f (s, d) = Done (s', d')"
  shows "d' = d" and "\<exists>s1. importFile f s = Done s1 \<and> s' = emit (Add (f_h f)) s1"
  using assms by (auto simp: sc_move_def split: outcome.splits)

lemma consistent_emit [simp]: "consistent (emit e s) = consistent s"
  by (simp add: consistent_def)

lemma consistent_sc_move:
  assumes "consistent s" "sc_move f (s, d) = Done (s', d')"
  shows "consistent s'"
proof (cases "files s (f_h f) = None")
  case True
  then show ?thesis
    using sc_move_unknown(2) [OF True assms(2)] consistent_importFile [OF assms(1)] by auto
next
  case False
  from sc_move_known(3) [OF False assms(2)] obtain op where op: "parent_of s (f_h f) = Some op"
    and rest: "if Some op = f_p f then s' = s
           else (\<exists>cs. children_at s op = Some cs \<and> files s (key_of (f_p f)) \<noteq> None \<and>
                  events s' = events s @ [FileMove (f_h f) op, Move (f_h f) op] \<and>
                  (\<forall>x. parent_of s' x = (if x = f_h f then Some (key_of (f_p f)) else parent_of s x)) \<and>
                  (\<forall>x. children_at s' x =
                     (if x = key_of (f_p f)
                      then Some ((case (if x = op then Some (splice_indexOf (f_h f) cs) else children_at s x) of
                                   None \<Rightarrow> [] | Some c \<Rightarrow> c) @ [f_h f])
                      else if x = op then Some (splice_indexOf (f_h f) cs) else children_at s x)))"
    by blast
  show ?thesis
  proof (cases "Some op = f_p f")
    case True
    then show ?thesis using rest assms(1) by simp
  next
    case ne: False
    then obtain cs where cs: "children_at s op = Some cs"
      and par: "\<And>x. parent_of s' x = (if x = f_h f then Some (key_of (f_p f)) else parent_of s x)"
      and chi: "\<And>x. children_at s' x =
                     (if x = key_of (f_p f)
                      then Some ((case (if x = op then Some (splice_indexOf (f_h f) cs) else children_at s x) of
                                   None \<Rightarrow> [] | Some c \<Rightarrow> c) @ [f_h f])
                      else if x = op then Some (splice_indexOf (f_h f) cs) else children_at s x)"
      using rest by auto
    have sp: "splice_indexOf (f_h f) cs = remove1 (f_h f) cs"
      by (rule splice_consistent [OF assms(1) op cs])
    show ?thesis
      unfolding consistent_def
    proof (intro allI impI)
      fix g p assume gp: "parent_of s' g = Some p"
      show "\<exists>c. children_at s' p = Some c \<and> g \<in> set c"
      proof (cases "g = f_h f")
        case True
        then have "p = key_of (f_p f)" using gp par [of g] by simp
        then show ?thesis using True chi [of p] by simp
      next
        case False
        then have "parent_of s g = Some p" using gp par [of g] by simp
        then obtain c where c: "children_at s p = Some c" "g \<in> set c"
          using consistentD [OF assms(1)] by blast
        show ?thesis
          using c cs False chi [of p] sp by (auto split: if_splits)
      qed
    qed
  qed
qed

lemma forEach_pair_invariant:
  assumes "forEach f xs (s, d) = Done (s', d')" and "P s d"
      and step: "\<And>x t e t' e'. x \<in> set xs \<Longrightarrow> P t e \<Longrightarrow> f x (t, e) = Done (t', e') \<Longrightarrow> P t' e'"
  shows "P s' d'"
proof -
  have "case_prod P (s', d')"
  proof (rule forEach_Done_invariant [where P = "case_prod P", OF assms(1)])
    show "case_prod P (s, d)" using assms(2) by simp
  next
    fix x t t' assume "x \<in> set xs" "case_prod P t" "f x t = Done t'"
    then show "case_prod P t'" using step [of x "fst t" "snd t" "fst t'" "snd t'"]
      by (cases t, cases t') auto
  qed
  then show ?thesis by simp
qed

lemma consistent_sc_action:
  assumes "consistent s" "sc_action a (s, d) = Done (s', d')"
  shows "consistent s'"
proof (cases a)
  case (ActU n ts at)
  then show ?thesis using assms by (auto simp: consistent_sc_update)
next
  case (ActD n)
  then show ?thesis using assms by auto
next
  case (ActT fs)
  then have "forEach sc_move fs (s, d) = Done (s', d')" using assms by simp
  then show ?thesis
    by (rule forEach_pair_invariant [where P = "\<lambda>t e. consistent t"])
       (use assms(1) consistent_sc_move in auto)
next
  case (ActOther x)
  then show ?thesis using assms by auto
qed

lemma emits_only_refl [simp]: "emits_only Q s s"
  by (simp add: emits_only_def)



lemma emits_only_emit: "Q e \<Longrightarrow> emits_only Q s (emit e s)"
  by (auto simp: emits_only_def)

lemma emits_only_same: "events s' = events s \<Longrightarrow> emits_only Q s s'"
  by (simp add: emits_only_def)

subsection \<open>What scanning a batch keeps\<close>


lemma sc_move_known_stays:
  assumes "sc_move f (s, d) = Done (s', d')" "files s x \<noteq> None"
  shows "files s' x \<noteq> None"
proof (cases "files s (f_h f) = None")
  case True
  from sc_move_unknown(2) [OF True assms(1)] obtain s1 where s1: "importFile f s = Done s1"
    "s' = emit (Add (f_h f)) s1" by blast
  show ?thesis using importFile_new(1) [OF True s1(1), of x] assms(2) s1(2) by simp
next
  case False
  then show ?thesis using sc_move_known(2) [OF False assms(1), of x] assms(2) by simp
qed


text \<open>The move of a known file to the parent \<open>P\<close>: the file is unmarked and has \<open>P\<close> as parent.\<close>

lemma sc_move_settles:
  assumes "sc_move f (s, d) = Done (s', d')" "files s (f_h f) \<noteq> None" "f_p f = Some P"
  shows "parent_of s' (f_h f) = Some P \<and> f_h f \<notin> set d'"
  using sc_move_known(1,3) [OF assms(2,1)] assms(3)
  by (auto simp: unmark_deleted_def key_of_def split: if_splits)







lemma set_Object_keys [simp]: "set (Object_keys d) = set d"
  by (auto simp: Object_keys_def)













lemma sc_handler_Done:
  assumes "sc_handler arr s = Done s'"
  shows "\<exists>sF dF. forEach sc_action arr (s, []) = Done (sF, dF) \<and> forEach sc_delete (Object_keys dF) sF = Done s'"
  using assms by (auto simp: sc_handler_def split: outcome.splits)


subsection \<open>A delete and a move of the same file in one batch\<close>








section \<open>Properties of reload and its listeners\<close>

lemma reload_once:
  assumes "status s \<noteq> Connecting \<or> force" "\<not> closed (api s)"
  shows "\<exists>s1. reload force s = Done s1 \<and> sc_listeners (api s1) = sc_listeners (api s) + 1 \<and>
           status s1 = status s \<and> closed (api s1) = closed (api s) \<and>
           files (fgraph s1) = files (fgraph s) \<and> events (fgraph s1) = events (fgraph s)"
  using assms
  by (auto simp: reload_def request_call_def perform_def Let_def)

lemma reloads_listeners:
  assumes "status s \<noteq> Connecting \<or> force" "\<not> closed (api s)"
  shows "\<exists>s'. reloads n force s = Done s' \<and> sc_listeners (api s') = sc_listeners (api s) + n \<and>
           files (fgraph s') = files (fgraph s) \<and> events (fgraph s') = events (fgraph s)"
  using assms
proof (induction n arbitrary: s)
  case 0
  then show ?case by simp
next
  case (Suc n)
  from reload_once [OF Suc.prems] obtain s1 where s1: "reload force s = Done s1"
    "sc_listeners (api s1) = sc_listeners (api s) + 1" "status s1 = status s"
    "closed (api s1) = closed (api s)" "files (fgraph s1) = files (fgraph s)"
    "events (fgraph s1) = events (fgraph s)"
    by blast
  have "status s1 \<noteq> Connecting \<or> force" "\<not> closed (api s1)" using s1 Suc.prems by auto
  from Suc.IH [OF this] obtain s' where "reloads n force s1 = Done s'"
    "sc_listeners (api s') = sc_listeners (api s1) + n"
    "files (fgraph s') = files (fgraph s1)" "events (fgraph s') = events (fgraph s1)"
    by blast
  then show ?case using s1 by simp
qed

text \<open>An update of a known file, applied by \<open>n\<close> listeners.\<close>

lemma sc_handler_update_known:
  "files g h \<noteq> None \<Longrightarrow>
   sc_handler [ActU h ts a] g = Done (sc_update h ts a g) \<and>
   events (sc_update h ts a g) = events g @ [FileUpdate h, Update h]"
  by (auto simp: sc_handler_def Object_keys_def sc_update_def)

lemma emit_sc_update:
  assumes "files g h \<noteq> None"
  shows "\<exists>g'. emit_sc n [ActU h ts a] g = Done g' \<and> files g' h \<noteq> None \<and>
           events g' = events g @ concat (replicate n [FileUpdate h, Update h])"
  using assms
proof (induction n arbitrary: g)
  case 0
  then show ?case by simp
next
  case (Suc n)
  let ?g1 = "sc_update h ts a g"
  have s: "sc_handler [ActU h ts a] g = Done ?g1" "events ?g1 = events g @ [FileUpdate h, Update h]"
    using sc_handler_update_known [OF Suc.prems] by simp_all
  have k: "files ?g1 h \<noteq> None" using Suc.prems sc_update_links(3) [of h ts a g h] by simp
  from Suc.IH [OF k] obtain g' where "emit_sc n [ActU h ts a] ?g1 = Done g'" "files g' h \<noteq> None"
    "events g' = events ?g1 @ concat (replicate n [FileUpdate h, Update h])"
    by blast
  then show ?case using s by simp
qed

text \<open>A move of a known file to another parent, applied by \<open>n\<close> listeners.\<close>

lemma sc_move_same_parent:
  assumes "files g (f_h f) \<noteq> None" "parent_of g (f_h f) = f_p f" "f_p f \<noteq> None"
  shows "sc_move f (g, d) = Done (g, unmark_deleted (f_h f) d)"
  using assms by (auto simp: sc_move_def parent_of_def Let_def split: option.splits)

lemma sc_handler_move_again:
  assumes "files g (f_h f) \<noteq> None" "parent_of g (f_h f) = f_p f" "f_p f \<noteq> None"
  shows "sc_handler [ActT [f]] g = Done g"
  using sc_move_same_parent [OF assms, of "[]"]
  by (simp add: sc_handler_def unmark_deleted_def Object_keys_def)

lemma emit_sc_same:
  assumes "sc_handler arr g = Done g"
  shows "emit_sc n arr g = Done g"
  using assms by (induction n) simp_all

lemma sc_handler_move_first:
  assumes "sc_handler [ActT [f]] g = Done g1" "files g (f_h f) \<noteq> None" "f_p f = Some P"
  shows "files g1 (f_h f) \<noteq> None \<and> parent_of g1 (f_h f) = Some P \<and>
         (\<exists>op. parent_of g (f_h f) = Some op \<and>
            emitted g g1 = (if op = P then [] else [FileMove (f_h f) op, Move (f_h f) op]))"
proof -
  from sc_handler_Done [OF assms(1)] obtain sF dF where
    scan: "forEach sc_action [ActT [f]] (g, []) = Done (sF, dF)"
    and fin: "forEach sc_delete (Object_keys dF) sF = Done g1" by blast
  from scan have mv: "sc_move f (g, []) = Done (sF, dF)" by (auto split: outcome.splits)
  have dF: "dF = []" using sc_move_known(1) [OF assms(2) mv] by (simp add: unmark_deleted_def)
  then have g1: "g1 = sF" using fin by (simp add: Object_keys_def)
  from sc_move_settles [OF mv assms(2,3)] have p: "parent_of sF (f_h f) = Some P" by simp
  have k: "files sF (f_h f) \<noteq> None" using sc_move_known_stays [OF mv assms(2)] .
  from sc_move_known(3) [OF assms(2) mv] obtain op where op: "parent_of g (f_h f) = Some op"
    and ev: "if Some op = f_p f then sF = g else events sF = events g @ [FileMove (f_h f) op, Move (f_h f) op]"
    by (metis (no_types, lifting))
  have "emitted g sF = (if op = P then [] else [FileMove (f_h f) op, Move (f_h f) op])"
    using ev assms(3) by (auto simp: emitted_def)
  then show ?thesis using g1 p k op by auto
qed

lemma emit_sc_move:
  assumes "sc_handler [ActT [f]] g = Done g1" "files g (f_h f) \<noteq> None" "f_p f = Some P"
  shows "emit_sc (Suc n) [ActT [f]] g = Done g1"
proof -
  have "files g1 (f_h f) \<noteq> None" "parent_of g1 (f_h f) = f_p f" "f_p f \<noteq> None"
    using sc_handler_move_first [OF assms] assms(3) by auto
  then have "sc_handler [ActT [f]] g1 = Done g1" by (rule sc_handler_move_again)
  then have "emit_sc n [ActT [f]] g1 = Done g1" by (rule emit_sc_same)
  then show ?thesis using assms(1) by simp
qed


text \<open>
  C9, as the code has it. Every call of \<open>reload\<close> that does not wait for \<open>ready\<close> (on
  an API that is not closed) registers one more listener for \<open>sc\<close> and removes none, and
  leaves the files and the event log as they are. After \<open>n\<close> calls an incoming batch
  goes to all the listeners in turn, each working on the graph the one before left.
  An update of a known file is so applied, and its two events emitted, once per
  listener. A move of a known file to a parent \<open>P\<close> is carried out by the first
  listener only: the listeners after it find the file under \<open>P\<close> and emit nothing, so
  the move events are emitted once (or not at all, when \<open>P\<close> was the parent already).
\<close>

theorem reload_listeners_apply_in_turn:
  assumes "status s \<noteq> Connecting \<or> force" and "\<not> closed (api s)"
  shows "\<exists>s1. reloads n force s = Done s1 \<and>
           sc_listeners (api s1) = sc_listeners (api s) + n \<and>
           files (fgraph s1) = files (fgraph s) \<and> events (fgraph s1) = events (fgraph s) \<and>
           (\<forall>arr. receive_sc arr s1 =
              (case emit_sc (sc_listeners (api s) + n) arr (fgraph s1) of
                 Threw e g \<Rightarrow> Threw e (s1\<lparr>fgraph := g\<rparr>)
               | Done g \<Rightarrow> Done (s1\<lparr>fgraph := g\<rparr>))) \<and>
           (\<forall>h ts a. files (fgraph s1) h \<noteq> None \<longrightarrow>
              (\<exists>g'. emit_sc (sc_listeners (api s) + n) [ActU h ts a] (fgraph s1) = Done g' \<and>
                    emitted (fgraph s1) g'
                      = concat (replicate (sc_listeners (api s) + n) [FileUpdate h, Update h]))) \<and>
           (\<forall>f P g1 k. files (fgraph s1) (f_h f) \<noteq> None \<and> f_p f = Some P \<and>
                 sc_handler [ActT [f]] (fgraph s1) = Done g1 \<and> sc_listeners (api s) + n = Suc k \<longrightarrow>
              emit_sc (sc_listeners (api s) + n) [ActT [f]] (fgraph s1) = Done g1 \<and>
              (\<exists>op. parent_of (fgraph s1) (f_h f) = Some op \<and>
                 emitted (fgraph s1) g1
                   = (if op = P then [] else [FileMove (f_h f) op, Move (f_h f) op])))"
proof -
  from reloads_listeners [OF assms, of n] obtain s1 where s1: "reloads n force s = Done s1"
    "sc_listeners (api s1) = sc_listeners (api s) + n"
    "files (fgraph s1) = files (fgraph s)" "events (fgraph s1) = events (fgraph s)"
    by blast
  have rc: "\<forall>arr. receive_sc arr s1 =
              (case emit_sc (sc_listeners (api s) + n) arr (fgraph s1) of
                 Threw e g \<Rightarrow> Threw e (s1\<lparr>fgraph := g\<rparr>)
               | Done g \<Rightarrow> Done (s1\<lparr>fgraph := g\<rparr>))"
    using s1(2) by (simp add: receive_sc_def)
  have up: "\<forall>h ts a. files (fgraph s1) h \<noteq> None \<longrightarrow>
              (\<exists>g'. emit_sc (sc_listeners (api s) + n) [ActU h ts a] (fgraph s1) = Done g' \<and>
                    emitted (fgraph s1) g'
                      = concat (replicate (sc_listeners (api s) + n) [FileUpdate h, Update h]))"
  proof (intro allI impI)
    fix h ts a assume "files (fgraph s1) h \<noteq> None"
    from emit_sc_update [OF this, of "sc_listeners (api s) + n" ts a]
    show "\<exists>g'. emit_sc (sc_listeners (api s) + n) [ActU h ts a] (fgraph s1) = Done g' \<and>
                    emitted (fgraph s1) g'
                      = concat (replicate (sc_listeners (api s) + n) [FileUpdate h, Update h])"
      by (auto simp: emitted_def)
  qed
  have mv: "\<forall>f P g1 k. files (fgraph s1) (f_h f) \<noteq> None \<and> f_p f = Some P \<and>
                 sc_handler [ActT [f]] (fgraph s1) = Done g1 \<and> sc_listeners (api s) + n = Suc k \<longrightarrow>
              emit_sc (sc_listeners (api s) + n) [ActT [f]] (fgraph s1) = Done g1 \<and>
              (\<exists>op. parent_of (fgraph s1) (f_h f) = Some op \<and>
                 emitted (fgraph s1) g1
                   = (if op = P then [] else [FileMove (f_h f) op, Move (f_h f) op]))"
  proof (intro allI impI)
    fix f P g1 k
    assume h: "files (fgraph s1) (f_h f) \<noteq> None \<and> f_p f = Some P \<and>
                 sc_handler [ActT [f]] (fgraph s1) = Done g1 \<and> sc_listeners (api s) + n = Suc k"
    then have a: "sc_handler [ActT [f]] (fgraph s1) = Done g1" "files (fgraph s1) (f_h f) \<noteq> None"
      "f_p f = Some P" by simp_all
    have "emit_sc (Suc k) [ActT [f]] (fgraph s1) = Done g1" by (rule emit_sc_move [OF a])
    then show "emit_sc (sc_listeners (api s) + n) [ActT [f]] (fgraph s1) = Done g1 \<and>
              (\<exists>op. parent_of (fgraph s1) (f_h f) = Some op \<and>
                 emitted (fgraph s1) g1
                   = (if op = P then [] else [FileMove (f_h f) op, Move (f_h f) op]))"
      using h sc_handler_move_first [OF a] by simp
  qed
  show ?thesis using s1 rc up mv by blast
qed

lemma example_storage_facts:
  "status example_storage \<noteq> Connecting" "\<not> closed (api example_storage)"
  "sc_listeners (api example_storage) = 0" "fgraph example_storage = example_graph"
  by (simp_all add: example_storage_def example_session_def new_API_def)

lemma example_graph_events: "events example_graph = []" "files example_graph ''h'' \<noteq> None"
  by (simp_all add: example_graph_def example_records_def graph_eval)

theorem reload_listeners_witness:
  "status example_storage \<noteq> Connecting \<and> \<not> closed (api example_storage) \<and>
   \<not> threw (reloads 2 False example_storage) \<and>
   sc_listeners (api (the_state (reloads 2 False example_storage))) = 2 \<and>
   \<not> threw (receive_sc [ActU ''h'' 5 ''x''] (the_state (reloads 2 False example_storage))) \<and>
   events (fgraph (the_state (receive_sc [ActU ''h'' 5 ''x''] (the_state (reloads 2 False example_storage)))))
     = [FileUpdate ''h'', Update ''h'', FileUpdate ''h'', Update ''h'']"
proof -
  have a: "status example_storage \<noteq> Connecting \<or> False" "\<not> closed (api example_storage)"
    using example_storage_facts by simp_all
  from reload_listeners_apply_in_turn [OF a, of 2] obtain s1 where
    s1: "reloads 2 False example_storage = Done s1"
      "sc_listeners (api s1) = sc_listeners (api example_storage) + 2"
      "files (fgraph s1) = files (fgraph example_storage)"
      "events (fgraph s1) = events (fgraph example_storage)"
    and rc: "\<forall>arr. receive_sc arr s1 =
              (case emit_sc (sc_listeners (api example_storage) + 2) arr (fgraph s1) of
                 Threw e g \<Rightarrow> Threw e (s1\<lparr>fgraph := g\<rparr>)
               | Done g \<Rightarrow> Done (s1\<lparr>fgraph := g\<rparr>))"
    and up: "\<forall>h ts a. files (fgraph s1) h \<noteq> None \<longrightarrow>
              (\<exists>g'. emit_sc (sc_listeners (api example_storage) + 2) [ActU h ts a] (fgraph s1) = Done g' \<and>
                    emitted (fgraph s1) g'
                      = concat (replicate (sc_listeners (api example_storage) + 2) [FileUpdate h, Update h]))"
    by blast
  have k: "files (fgraph s1) ''h'' \<noteq> None"
    using s1(3) example_graph_events(2) example_storage_facts(4) by simp
  from up k obtain g' where
    g': "emit_sc (sc_listeners (api example_storage) + 2) [ActU ''h'' 5 ''x''] (fgraph s1) = Done g'"
      "emitted (fgraph s1) g'
         = concat (replicate (sc_listeners (api example_storage) + 2) [FileUpdate ''h'', Update ''h''])"
    by blast
  have r: "receive_sc [ActU ''h'' 5 ''x''] s1 = Done (s1\<lparr>fgraph := g'\<rparr>)"
    using rc g'(1) by (simp del: emit_sc.simps)
  have e0: "events (fgraph s1) = []"
    using s1(4) example_graph_events(1) example_storage_facts(4) by simp
  have "emitted (fgraph s1) g' = [FileUpdate ''h'', Update ''h'', FileUpdate ''h'', Update ''h'']"
    using g'(2) example_storage_facts(3) by (simp add: numeral_2_eq_2)
  then have e: "events g' = [FileUpdate ''h'', Update ''h'', FileUpdate ''h'', Update ''h'']"
    using e0 by (simp add: emitted_def)
  have l: "sc_listeners (api s1) = 2" using s1(2) example_storage_facts(3) by simp
  show ?thesis
    using example_storage_facts(1,2) s1(1) l r e by (simp add: threw_def the_state_def)
qed

text \<open>
  C9, as the claim states it, fails: after two calls of \<open>reload\<close> there are two
  listeners, and a batch that moves a file emits its move events once, not twice.
\<close>

theorem move_event_emitted_once:
  "sc_listeners (api (the_state (reloads 2 False example_storage))) = 2 \<and>
   \<not> threw (receive_sc [move_h_to_b] (the_state (reloads 2 False example_storage))) \<and>
   events (fgraph (the_state (receive_sc [move_h_to_b] (the_state (reloads 2 False example_storage)))))
     = [FileMove ''h'' ''a'', Move ''h'' ''a'']"
  by (simp add: example_storage_def example_session_def new_API_def new_Storage_def numeral_2_eq_2
      reload_def request_call_def perform_def post_increment_def Let_def receive_sc_def
      move_h_to_b_def example_graph_def example_records_def graph_eval)

end
